theory Spec2Isabelle
  imports Complex_Main
begin

section \<open>JSON values as the layout engine sees them\<close>

text \<open>
  The input of \<^verbatim>\<open>generatePDF\<close> is parsed JSON. Numbers are JavaScript doubles; they are
  idealised here as reals (every comparison of the page walk is then exact, and there is
  no \<^verbatim>\<open>NaN\<close> or infinity among the numbers). An object is the list of its own properties
  in JavaScript's enumeration order.
\<close>

datatype json =
    JNull
  | JBool bool
  | JNum real
  | JStr string
  | JArr "json list"
  | JObj "(string \<times> json) list"

text \<open>What a call can end with instead of a result.\<close>

datatype error =
    FetchError      \<comment> \<open>\<^verbatim>\<open>axios.get(input)\<close> rejected\<close>
  | TypeError       \<comment> \<open>a property read, or \<^verbatim>\<open>Object.keys\<close>, on \<^verbatim>\<open>null\<close>\<close>
  | CanvasError     \<comment> \<open>jsPDF refused the arguments of \<^verbatim>\<open>addImage\<close>\<close>

text \<open>
  \<^verbatim>\<open>cleanJSON\<close>: arrays are mapped, non-null objects are rebuilt entry by entry, every
  other value is returned as it is.
\<close>

primrec cleanJSON :: "json \<Rightarrow> json" where
  "cleanJSON JNull = JNull"
| "cleanJSON (JBool b) = JBool b"
| "cleanJSON (JNum n) = JNum n"
| "cleanJSON (JStr s) = JStr s"
| "cleanJSON (JArr xs) = JArr (map cleanJSON xs)"
| "cleanJSON (JObj kvs) = JObj (map (map_prod id cleanJSON) kvs)"

text \<open>Decimal rendering of a page number or an array index (template literals, keys).\<close>

fun string_of_nat :: "nat \<Rightarrow> string" where
  "string_of_nat n =
     (if n < 10 then [char_of (48 + n)]
      else string_of_nat (n div 10) @ [char_of (48 + n mod 10)])"

declare string_of_nat.simps [simp del]

text \<open>\<^verbatim>\<open>String.prototype.toUpperCase\<close>, on the ASCII letters.\<close>

definition upperChar :: "char \<Rightarrow> char" where
  "upperChar c =
     (let n = (of_char c :: nat) in if 97 \<le> n \<and> n \<le> 122 then char_of (n - 32) else c)"

definition toUpperCase :: "string \<Rightarrow> string" where
  "toUpperCase s = map upperChar s"

text \<open>
  The own enumerable properties of a value, in enumeration order: what \<^verbatim>\<open>for (key in v)\<close>
  and \<^verbatim>\<open>Object.keys(v)\<close> walk, and what \<^verbatim>\<open>v[key]\<close> finds. An array has its indices, a
  string its character positions, a number, a boolean and \<^verbatim>\<open>null\<close> have none.
  Inherited properties (\<^verbatim>\<open>length\<close>, \<^verbatim>\<open>constructor\<close>, ...) are not enumerable and are left out;
  none of them is named \<^verbatim>\<open>header\<close>, \<^verbatim>\<open>footer\<close>, \<^verbatim>\<open>text\<close>, \<^verbatim>\<open>url\<close>, \<^verbatim>\<open>x\<close>, \<^verbatim>\<open>width\<close> or
  \<^verbatim>\<open>height\<close>.
\<close>

fun entries :: "json \<Rightarrow> (string \<times> json) list" where
  "entries (JObj kvs) = kvs"
| "entries (JArr xs) = zip (map string_of_nat [0..<length xs]) xs"
| "entries (JStr s) = zip (map string_of_nat [0..<length s]) (map (\<lambda>c. JStr [c]) s)"
| "entries _ = []"

definition objectKeys :: "json \<Rightarrow> string list" where
  "objectKeys v = map fst (entries v)"

text \<open>\<^verbatim>\<open>v[key]\<close> on a value that is not \<^verbatim>\<open>null\<close>; \<open>None\<close> is \<^verbatim>\<open>undefined\<close>.\<close>

definition getProp :: "json \<Rightarrow> string \<Rightarrow> json option" where
  "getProp v k = map_of (entries v) k"

text \<open>JavaScript truthiness of a value that may be \<^verbatim>\<open>undefined\<close>.\<close>

fun truthy :: "json option \<Rightarrow> bool" where
  "truthy None = False"
| "truthy (Some JNull) = False"
| "truthy (Some (JBool b)) = b"
| "truthy (Some (JNum n)) = (n \<noteq> 0)"
| "truthy (Some (JStr s)) = (s \<noteq> [])"
| "truthy (Some (JArr xs)) = True"
| "truthy (Some (JObj kvs)) = True"

text \<open>\<^verbatim>\<open>v || d\<close>: the value itself when it is truthy, the default otherwise.\<close>

definition orElse :: "json option \<Rightarrow> json \<Rightarrow> json" where
  "orElse v d = (if truthy v then the v else d)"

subsection \<open>JavaScript's \<^verbatim>\<open>+\<close>, \<^verbatim>\<open>>\<close> and \<^verbatim>\<open><\<close> on these values\<close>

text \<open>
  The cursor \<^verbatim>\<open>y\<close> and a row's \<^verbatim>\<open>height\<close> are typed \<^verbatim>\<open>any\<close>: the source adds and compares
  whatever the data holds. How the runtime writes a number as a string and reads a string
  as a number (\<open>None\<close> is \<^verbatim>\<open>NaN\<close>) are parameters.
\<close>

record runtime =
  numberToString :: "real \<Rightarrow> string"
  stringToNumber :: "string \<Rightarrow> real option"

fun joinComma :: "string list \<Rightarrow> string" where
  "joinComma [] = []"
| "joinComma [s] = s"
| "joinComma (s # t # ss) = s @ '','' @ joinComma (t # ss)"

text \<open>\<^verbatim>\<open>String(v)\<close>; an array joins its elements with commas, \<^verbatim>\<open>null\<close> elements as empty.\<close>

fun toStringJS :: "runtime \<Rightarrow> json \<Rightarrow> string" where
  "toStringJS rt JNull = ''null''"
| "toStringJS rt (JBool b) = (if b then ''true'' else ''false'')"
| "toStringJS rt (JNum n) = numberToString rt n"
| "toStringJS rt (JStr s) = s"
| "toStringJS rt (JArr xs) =
     joinComma (map (\<lambda>x. if x = JNull then [] else toStringJS rt x) xs)"
| "toStringJS rt (JObj kvs) = ''[object Object]''"

text \<open>\<^verbatim>\<open>Number(v)\<close>; arrays and objects go through their strings.\<close>

fun toNumberJS :: "runtime \<Rightarrow> json \<Rightarrow> real option" where
  "toNumberJS rt JNull = Some 0"
| "toNumberJS rt (JBool b) = Some (if b then 1 else 0)"
| "toNumberJS rt (JNum n) = Some n"
| "toNumberJS rt (JStr s) = stringToNumber rt s"
| "toNumberJS rt v = stringToNumber rt (toStringJS rt v)"

text \<open>A value whose primitive is a string: \<^verbatim>\<open>+\<close> with it concatenates.\<close>

fun stringy :: "json \<Rightarrow> bool" where
  "stringy (JStr s) = True"
| "stringy (JArr xs) = True"
| "stringy (JObj kvs) = True"
| "stringy _ = False"

text \<open>\<^verbatim>\<open>a + b\<close>: concatenation when either side is a string, the sum of the numbers otherwise.\<close>

fun plainNumber :: "json \<Rightarrow> real" where
  "plainNumber (JNum n) = n"
| "plainNumber (JBool b) = (if b then 1 else 0)"
| "plainNumber _ = 0"

definition jsPlus :: "runtime \<Rightarrow> json \<Rightarrow> json \<Rightarrow> json" where
  "jsPlus rt a b =
     (if stringy a \<or> stringy b then JStr (toStringJS rt a @ toStringJS rt b)
      else JNum (plainNumber a + plainNumber b))"

text \<open>\<^verbatim>\<open>a > r\<close> and \<^verbatim>\<open>a < r\<close> against a number: false when \<^verbatim>\<open>a\<close> reads as \<^verbatim>\<open>NaN\<close>.\<close>

definition jsGreater :: "runtime \<Rightarrow> json \<Rightarrow> real \<Rightarrow> bool" where
  "jsGreater rt a r = (case toNumberJS rt a of None \<Rightarrow> False | Some x \<Rightarrow> x > r)"

definition jsLess :: "runtime \<Rightarrow> json \<Rightarrow> real \<Rightarrow> bool" where
  "jsLess rt a r = (case toNumberJS rt a of None \<Rightarrow> False | Some x \<Rightarrow> x < r)"

section \<open>The canvas: jsPDF calls, page by page\<close>

datatype align = NoAlign | Center

text \<open>
  One constructor per jsPDF call the generator makes. A page is the list of the calls made
  while it was the current page. A \<open>y\<close> that comes from the cursor is whatever the cursor
  holds, a number or a string.
\<close>

datatype op =
    SetFillColor nat nat nat
  | Rect real real real real              \<comment> \<open>x, y, width, height; always filled\<close>
  | SetFont string "string option"        \<comment> \<open>family, style\<close>
  | SetFontSize real
  | SetTextColor nat nat nat
  | Text json real json align             \<comment> \<open>text, x, y, alignment option\<close>
  | SetLineWidth real
  | Line real real real real
  | AddImage string json json json json   \<comment> \<open>data, x, y, width, height (always JPEG)\<close>
  | AutoTable json "string list" "json option list list"  \<comment> \<open>startY, head row, body\<close>

text \<open>
  The document: its page size, the pages already left behind, and the current page.
  \<^verbatim>\<open>doc.addPage()\<close> appends a page and makes it current; the page walk never goes back.
\<close>

record jsPDF =
  pageW :: real
  pageH :: real
  finished :: "op list list"
  current :: "op list"

definition newDoc :: "real \<times> real \<Rightarrow> jsPDF" where
  "newDoc sz = \<lparr>pageW = fst sz, pageH = snd sz, finished = [], current = []\<rparr>"

definition allPages :: "jsPDF \<Rightarrow> op list list" where
  "allPages d = finished d @ [current d]"

definition emit :: "op list \<Rightarrow> jsPDF \<Rightarrow> jsPDF" where
  "emit cs d = d\<lparr>current := current d @ cs\<rparr>"

definition addPage :: "jsPDF \<Rightarrow> jsPDF" where
  "addPage d = d\<lparr>finished := finished d @ [current d], current := []\<rparr>"

section \<open>Header and footer furniture\<close>

text \<open>\<^verbatim>\<open>header?.text || "Comprehensive Business Report - 2025"\<close>\<close>

definition headerText :: "json option \<Rightarrow> json" where
  "headerText header =
     orElse (case header of None \<Rightarrow> None | Some JNull \<Rightarrow> None | Some h \<Rightarrow> getProp h ''text'')
       (JStr ''Comprehensive Business Report - 2025'')"

definition headerOps :: "json option \<Rightarrow> real \<Rightarrow> string \<Rightarrow> real \<Rightarrow> op list" where
  "headerOps header pageWidth fontType fontSize =
     [SetFillColor 240 240 240,
      Rect 0 0 pageWidth 70,
      SetFont fontType None,
      SetFontSize fontSize,
      SetTextColor 0 0 0,
      Text (headerText header) (pageWidth / 2) (JNum 40) Center,
      SetLineWidth 1,
      Line 50 65 (pageWidth - 50) 65]"

text \<open>\<^verbatim>\<open>addHeader\<close> draws on the current page and returns 90.\<close>

definition addHeader :: "jsPDF \<Rightarrow> json option \<Rightarrow> real \<Rightarrow> string \<Rightarrow> real \<Rightarrow> jsPDF \<times> real" where
  "addHeader d header pageWidth fontType fontSize =
     (emit (headerOps header pageWidth fontType fontSize) d, 90)"

definition footerOps :: "json \<Rightarrow> real \<Rightarrow> real \<Rightarrow> op list" where
  "footerOps footer pageWidth pageHeight =
     [SetFillColor 240 240 240,
      Rect 0 (pageHeight - 60) pageWidth 60,
      SetFontSize 10,
      SetTextColor 0 0 0,
      Text (orElse (getProp footer ''text'') (JStr ''Generated by JSON-to-PDF Library''))
        (pageWidth / 2) (JNum (pageHeight - 40)) Center]"

text \<open>\<^verbatim>\<open>addFooter\<close>: \<^verbatim>\<open>if (!footer) return;\<close> then the band and its text.\<close>

definition addFooter :: "jsPDF \<Rightarrow> json option \<Rightarrow> real \<Rightarrow> real \<Rightarrow> jsPDF" where
  "addFooter d footer pageWidth pageHeight =
     (if \<not> truthy footer then d
      else emit (footerOps (the footer) pageWidth pageHeight) d)"

section \<open>Page geometry and the cursor\<close>

text \<open>
  The functions that add to the cursor or compare it take the runtime as their first
  argument; \<^verbatim>\<open>tableHeight\<close> and \<^verbatim>\<open>pageHeight\<close> are always numbers.
\<close>

definition willFitOnPage :: "runtime \<Rightarrow> json \<Rightarrow> real \<Rightarrow> real \<Rightarrow> bool" where
  "willFitOnPage rt y tableHeight pageHeight =
     jsLess rt (jsPlus rt y (JNum tableHeight)) (pageHeight - 100)"

text \<open>
  The three calls the source repeats at each of its three page breaks:
  \<^verbatim>\<open>doc.addPage(); addHeader(doc, jsonData.header, ...); addFooter(doc, jsonData.footer, ...)\<close>.
  By then \<^verbatim>\<open>jsonData\<close> is known not to be \<^verbatim>\<open>null\<close>.
\<close>

definition furnishedPage :: "jsPDF \<Rightarrow> json \<Rightarrow> real \<Rightarrow> real \<Rightarrow> string \<Rightarrow> real \<Rightarrow> jsPDF" where
  "furnishedPage d jsonData pageWidth pageHeight fontType fontSize =
     (let d1 = addPage d;
          d2 = fst (addHeader d1 (getProp jsonData ''header'') pageWidth fontType fontSize)
      in addFooter d2 (getProp jsonData ''footer'') pageWidth pageHeight)"

text \<open>
  \<^verbatim>\<open>ensureSpacing\<close>: the new page is drawn with the page size read from the document itself.
\<close>

definition ensureSpacing ::
  "runtime \<Rightarrow> jsPDF \<Rightarrow> json \<Rightarrow> real \<Rightarrow> json \<Rightarrow> string \<Rightarrow> real \<Rightarrow> json \<Rightarrow> jsPDF \<times> json" where
  "ensureSpacing rt d y pageHeight spaceNeeded fontType fontSize jsonData =
     (if jsGreater rt (jsPlus rt y spaceNeeded) (pageHeight - 100) then
        (furnishedPage d jsonData (pageW d) (pageH d) fontType fontSize, JNum 100)
      else (d, jsPlus rt y spaceNeeded))"

section \<open>External collaborators and the generator's locals\<close>

datatype format = A4 | Letter | Legal

datatype orientation = Portrait | Landscape

text \<open>
  What the generator needs from jsPDF, jspdf-autotable and axios, taken as parameters:
  the page size of a format, line wrapping (for a font family, a font size, a text and a
  width), the grid layout (for the document, a start position, a head row and a body: how
  many pages the table adds and where it ends), the two HTTP reads (\<open>None\<close> when the
  request is rejected; the image read yields the base64 text of the bytes), whether
  \<^verbatim>\<open>addImage\<close> refuses its \<open>x\<close>, \<open>y\<close>, width and height by throwing (jsPDF checks the
  coordinates), and the runtime's conversions.
\<close>

record canvas =
  pageSize :: "format \<Rightarrow> orientation \<Rightarrow> real \<times> real"
  splitTextToSize :: "string \<Rightarrow> real \<Rightarrow> string \<Rightarrow> real \<Rightarrow> string list"
  autoTableLayout :: "jsPDF \<Rightarrow> json \<Rightarrow> string list \<Rightarrow> json option list list \<Rightarrow> nat \<times> real"
  axiosGetJson :: "string \<Rightarrow> json option"
  axiosGetImage :: "json \<Rightarrow> string option"
  addImageThrows :: "json \<Rightarrow> json \<Rightarrow> json \<Rightarrow> json \<Rightarrow> bool"
  jsRuntime :: runtime

text \<open>The locals of \<^verbatim>\<open>generatePDF\<close> that its loop body reads and never changes.\<close>

record env =
  e_canvas :: canvas
  e_jsonData :: json
  e_pageWidth :: real
  e_pageHeight :: real
  e_fontType :: string
  e_fontSize :: real

datatype diag = FailedToLoadImage json

text \<open>
  What the loop body changes: the document, the cursor \<^verbatim>\<open>y\<close>, and, outside the program,
  the image requests sent and the lines written by \<^verbatim>\<open>console.error\<close>.
\<close>

record walk =
  doc :: jsPDF
  curY :: json
  fetched :: "json list"
  console :: "diag list"

text \<open>A page break written inline in the loop body, with the generator's own page size.\<close>

definition breakPage :: "env \<Rightarrow> jsPDF \<Rightarrow> jsPDF" where
  "breakPage e d =
     furnishedPage d (e_jsonData e) (e_pageWidth e) (e_pageHeight e) (e_fontType e) (e_fontSize e)"

definition e_runtime :: "env \<Rightarrow> runtime" where
  "e_runtime e = jsRuntime (e_canvas e)"

text \<open>A call of \<^verbatim>\<open>ensureSpacing\<close> from the loop body, and the loop body's own \<^verbatim>\<open>y + v\<close>.\<close>

definition spacing :: "env \<Rightarrow> jsPDF \<Rightarrow> json \<Rightarrow> json \<Rightarrow> jsPDF \<times> json" where
  "spacing e d y spaceNeeded =
     ensureSpacing (e_runtime e) d y (e_pageHeight e) spaceNeeded (e_fontType e) (e_fontSize e)
       (e_jsonData e)"

definition plus :: "env \<Rightarrow> json \<Rightarrow> json \<Rightarrow> json" where
  "plus e a b = jsPlus (e_runtime e) a b"

section \<open>Text fields\<close>

text \<open>The body of \<^verbatim>\<open>splitText.forEach\<close>, line after line.\<close>

primrec writeLines :: "env \<Rightarrow> string list \<Rightarrow> jsPDF \<times> json \<Rightarrow> jsPDF \<times> json" where
  "writeLines e [] s = s"
| "writeLines e (line # ls) s =
     (let s1 = spacing e (fst s) (snd s) (JNum 20);
          d2 = emit [Text (JStr line) 50 (snd s1) NoAlign] (fst s1)
      in writeLines e ls (d2, plus e (snd s1) (JNum 20)))"

definition renderText :: "env \<Rightarrow> string \<Rightarrow> string \<Rightarrow> walk \<Rightarrow> walk" where
  "renderText e key val w =
     (let s1 = spacing e (doc w) (curY w) (JNum 30);
          d2 = emit [SetFontSize (e_fontSize e),
                     SetFont (e_fontType e) (Some ''bold''),
                     Text (JStr (toUpperCase key @ '':'')) 50 (snd s1) NoAlign,
                     SetFont (e_fontType e) (Some ''normal'')] (fst s1);
          splitText = splitTextToSize (e_canvas e) (e_fontType e) (e_fontSize e) val
                        (e_pageWidth e - 100);
          s3 = writeLines e splitText (d2, plus e (snd s1) (JNum 20))
      in w\<lparr>doc := fst s3, curY := plus e (snd s3) (JNum 20)\<rparr>)"

section \<open>Image rows\<close>

text \<open>
  \<^verbatim>\<open>imageToBase64\<close>: the request is sent; a rejected request is caught, logged with
  \<^verbatim>\<open>console.error\<close>, and answered by \<^verbatim>\<open>null\<close>.
\<close>

definition imageToBase64 :: "canvas \<Rightarrow> json \<Rightarrow> walk \<Rightarrow> string option \<times> walk" where
  "imageToBase64 c imageUrl w =
     (case axiosGetImage c imageUrl of
        Some base64 \<Rightarrow>
          (Some (''data:image/jpeg;base64,'' @ base64), w\<lparr>fetched := fetched w @ [imageUrl]\<rparr>)
      | None \<Rightarrow>
          (None, w\<lparr>fetched := fetched w @ [imageUrl],
                   console := console w @ [FailedToLoadImage imageUrl]\<rparr>))"

text \<open>
  The part of the loop body behind \<^verbatim>\<open>if (imgData)\<close>. The call of \<^verbatim>\<open>addImage\<close> throws when
  jsPDF refuses its arguments; the call is then not on the page.
\<close>

definition placeImage :: "env \<Rightarrow> json \<Rightarrow> string \<Rightarrow> walk \<Rightarrow> error + walk" where
  "placeImage e row imgData w =
     (let s1 = spacing e (doc w) (curY w) (orElse (getProp row ''height'') (JNum 120));
          h = orElse (getProp row ''height'') (JNum 100);
          s2 = (if jsGreater (e_runtime e) (plus e (snd s1) h) (e_pageHeight e - 100)
                then (breakPage e (fst s1), JNum 100) else s1);
          imgX = (case getProp row ''x'' of None \<Rightarrow> JNum 50 | Some v \<Rightarrow> v);
          imgW = orElse (getProp row ''width'') (JNum 150)
      in if addImageThrows (e_canvas e) imgX (snd s2) imgW h then Inl CanvasError
         else Inr (w\<lparr>doc := emit [AddImage imgData imgX (snd s2) imgW h] (fst s2),
                     curY := plus e (snd s2) (plus e h (JNum 20))\<rparr>))"

text \<open>One turn of \<^verbatim>\<open>for (const row of value)\<close>; \<^verbatim>\<open>row.url\<close> on \<^verbatim>\<open>null\<close> throws.\<close>

definition imageRow :: "env \<Rightarrow> json \<Rightarrow> walk \<Rightarrow> error + walk" where
  "imageRow e row w =
     (if row = JNull then Inl TypeError
      else if \<not> truthy (getProp row ''url'') then Inr w
      else (case imageToBase64 (e_canvas e) (the (getProp row ''url'')) w of
              (None, w1) \<Rightarrow> Inr w1
            | (Some imgData, w1) \<Rightarrow> placeImage e row imgData w1))"

primrec renderImageRows :: "env \<Rightarrow> json list \<Rightarrow> walk \<Rightarrow> error + walk" where
  "renderImageRows e [] w = Inr w"
| "renderImageRows e (row # rows) w =
     (case imageRow e row w of
        Inl err \<Rightarrow> Inl err
      | Inr w1 \<Rightarrow> renderImageRows e rows w1)"

section \<open>Tables\<close>

text \<open>The \<^verbatim>\<open>didDrawPage\<close> hook handed to the grid layout.\<close>

definition didDrawPage :: "env \<Rightarrow> jsPDF \<Rightarrow> jsPDF" where
  "didDrawPage e d =
     addFooter
       (fst (addHeader d (getProp (e_jsonData e) ''header'') (e_pageWidth e) (e_fontType e)
          (e_fontSize e)))
       (getProp (e_jsonData e) ''footer'') (e_pageWidth e) (e_pageHeight e)"

text \<open>
  The grid layout is jspdf-autotable's: it draws on the current page, appends the pages it
  needs, and calls the hook once on every page it has drawn on.
\<close>

primrec tablePages :: "nat \<Rightarrow> env \<Rightarrow> jsPDF \<Rightarrow> jsPDF" where
  "tablePages 0 e d = d"
| "tablePages (Suc n) e d = tablePages n e (didDrawPage e (addPage d))"

definition autoTable :: "env \<Rightarrow> json \<Rightarrow> string list \<Rightarrow> json option list list \<Rightarrow> jsPDF \<Rightarrow> jsPDF \<times> real" where
  "autoTable e startY headRow body d =
     (let r = autoTableLayout (e_canvas e) d startY headRow body
      in (tablePages (fst r) e (didDrawPage e (emit [AutoTable startY headRow body] d)), snd r))"

text \<open>
  The table branch. \<^verbatim>\<open>row[header]\<close> throws on a \<^verbatim>\<open>null\<close> row, when there is a header to
  read.
\<close>

definition renderTable :: "env \<Rightarrow> string list \<Rightarrow> json list \<Rightarrow> walk \<Rightarrow> error + walk" where
  "renderTable e headers rows w =
     (let estimatedTableHeight = real (length rows) * 25 + 50;
          s1 = (if \<not> willFitOnPage (e_runtime e) (curY w) estimatedTableHeight (e_pageHeight e)
                then (breakPage e (doc w), JNum 100) else (doc w, curY w))
      in if headers \<noteq> [] \<and> JNull \<in> set rows then Inl TypeError
         else (let body = map (\<lambda>row. map (getProp row) headers) rows;
                   s2 = autoTable e (snd s1) headers body (fst s1)
               in Inr (w\<lparr>doc := fst s2, curY := JNum (snd s2 + 30)\<rparr>)))"

section \<open>Classifying and dispatching a field\<close>

datatype field =
    TextField string
  | ImageTable "json list"
  | Table "string list" "json list"
  | Skip

text \<open>\<^verbatim>\<open>typeof v === "object"\<close> on a defined value.\<close>

fun typeofObject :: "json \<Rightarrow> bool" where
  "typeofObject JNull = True"
| "typeofObject (JArr xs) = True"
| "typeofObject (JObj kvs) = True"
| "typeofObject _ = False"

text \<open>
  The conditions of the loop body, in its order: \<^verbatim>\<open>typeof value === "string"\<close>; then
  \<^verbatim>\<open>Array.isArray(value) && typeof value[0] === "object"\<close>, under which
  \<^verbatim>\<open>Object.keys(value[0])\<close> is taken (and throws on \<^verbatim>\<open>null\<close>) and searched for \<^verbatim>\<open>url\<close>;
  a value that meets neither is passed over.
\<close>

definition classify :: "json \<Rightarrow> error + field" where
  "classify val =
     (case val of
        JStr s \<Rightarrow> Inr (TextField s)
      | JArr rows \<Rightarrow>
          (case rows of
             [] \<Rightarrow> Inr Skip
           | first # rest \<Rightarrow>
               if typeofObject first then
                 (if first = JNull then Inl TypeError
                  else (let headers = objectKeys first
                        in if ''url'' \<in> set headers then Inr (ImageTable rows)
                           else Inr (Table headers rows)))
               else Inr Skip)
      | _ \<Rightarrow> Inr Skip)"

definition renderField :: "env \<Rightarrow> string \<Rightarrow> json \<Rightarrow> walk \<Rightarrow> error + walk" where
  "renderField e key val w =
     (if key \<in> set [''header'', ''footer''] then Inr w
      else (case classify val of
              Inl err \<Rightarrow> Inl err
            | Inr (TextField s) \<Rightarrow> Inr (renderText e key s w)
            | Inr (ImageTable rows) \<Rightarrow> renderImageRows e rows w
            | Inr (Table headers rows) \<Rightarrow> renderTable e headers rows w
            | Inr Skip \<Rightarrow> Inr w))"

primrec renderFields :: "env \<Rightarrow> (string \<times> json) list \<Rightarrow> walk \<Rightarrow> error + walk" where
  "renderFields e [] w = Inr w"
| "renderFields e (kv # kvs) w =
     (case renderField e (fst kv) (snd kv) w of
        Inl err \<Rightarrow> Inl err
      | Inr w1 \<Rightarrow> renderFields e kvs w1)"

section \<open>The generator\<close>

record imageOption =
  img_path :: string
  img_x :: real
  img_y :: real
  img_width :: real
  img_height :: real

text \<open>\<^verbatim>\<open>PDFOptions\<close>: every member is optional.\<close>

record PDFOptions =
  opt_format :: "format option"
  opt_orientation :: "orientation option"
  opt_fontType :: "string option"
  opt_fontSize :: "real option"
  opt_pageNumbering :: "bool option"
  opt_images :: "imageOption list option"

definition orDefault :: "'a option \<Rightarrow> 'a \<Rightarrow> 'a" where
  "orDefault v d = (case v of None \<Rightarrow> d | Some x \<Rightarrow> x)"

text \<open>
  The locals after the options are destructured with their defaults, the input is read
  (a string input is a URL to fetch), cleaned, and the document is created.
  \<^verbatim>\<open>images\<close> is destructured as well and not used again.
\<close>

definition mkEnv :: "canvas \<Rightarrow> PDFOptions \<Rightarrow> json \<Rightarrow> env" where
  "mkEnv c options jsonData =
     (let sz = pageSize c (orDefault (opt_format options) A4)
                 (orDefault (opt_orientation options) Portrait)
      in \<lparr>e_canvas = c, e_jsonData = jsonData,
          e_pageWidth = fst sz, e_pageHeight = snd sz,
          e_fontType = orDefault (opt_fontType options) ''times'',
          e_fontSize = orDefault (opt_fontSize options) 14\<rparr>)"

definition readInput :: "canvas \<Rightarrow> json \<Rightarrow> error + json" where
  "readInput c input =
     (case input of
        JStr u \<Rightarrow> (case axiosGetJson c u of None \<Rightarrow> Inl FetchError | Some j \<Rightarrow> Inr j)
      | _ \<Rightarrow> Inr input)"

text \<open>
  Everything up to the end of the loop over the fields. The first read of
  \<^verbatim>\<open>jsonData.header\<close> throws when the data is \<^verbatim>\<open>null\<close>.
\<close>

definition layoutFields :: "canvas \<Rightarrow> PDFOptions \<Rightarrow> json \<Rightarrow> error + walk" where
  "layoutFields c options jsonData =
     (let e = mkEnv c options jsonData;
          d0 = newDoc (e_pageWidth e, e_pageHeight e)
      in if jsonData = JNull then Inl TypeError
         else (let s1 = addHeader d0 (getProp jsonData ''header'') (e_pageWidth e)
                          (e_fontType e) (e_fontSize e);
                   d2 = emit [SetFont (e_fontType e) None, SetFontSize (e_fontSize e)] (fst s1)
               in renderFields e (entries jsonData)
                    \<lparr>doc = d2, curY = JNum (snd s1), fetched = [], console = []\<rparr>))"

text \<open>
  The numbering loop: \<^verbatim>\<open>for (let i = 1; i <= totalPages; i++)\<close>, each turn selecting page
  \<open>i\<close> and writing on it.
\<close>

definition stamp :: "real \<Rightarrow> real \<Rightarrow> nat \<Rightarrow> nat \<Rightarrow> op list" where
  "stamp pageWidth pageHeight i totalPages =
     [SetFontSize 10,
      Text (JStr (''Page '' @ string_of_nat i @ '' of '' @ string_of_nat totalPages))
        (pageWidth - 80) (JNum (pageHeight - 30)) NoAlign]"

function numberPages :: "real \<Rightarrow> real \<Rightarrow> nat \<Rightarrow> nat \<Rightarrow> op list list \<Rightarrow> op list list" where
  "numberPages pageWidth pageHeight totalPages i ps =
     (if i \<le> totalPages
      then numberPages pageWidth pageHeight totalPages (i + 1)
             (ps[i - 1 := ps ! (i - 1) @ stamp pageWidth pageHeight i totalPages])
      else ps)"
  by pat_completeness auto
termination
  by (relation "measure (\<lambda>(pw, ph, n, i, ps). n + 1 - i)") auto

declare numberPages.simps [simp del]

text \<open>What a successful call leaves behind: the pages written to the file, and the traces.\<close>

record artifact =
  art_pages :: "op list list"
  art_fetched :: "json list"
  art_console :: "diag list"

text \<open>
  After the loop: the footer on the current page, then the page numbers, then the file.
  The file name (\<^verbatim>\<open>report-<Date.now()>.pdf\<close>) and the returned path are not modelled.
\<close>

definition finish :: "env \<Rightarrow> bool \<Rightarrow> walk \<Rightarrow> artifact" where
  "finish e pageNumbering w =
     (let d = addFooter (doc w) (getProp (e_jsonData e) ''footer'') (e_pageWidth e)
                (e_pageHeight e);
          ps = allPages d;
          ps' = (if pageNumbering
                 then numberPages (e_pageWidth e) (e_pageHeight e) (length ps) 1 ps
                 else ps)
      in \<lparr>art_pages = ps', art_fetched = fetched w, art_console = console w\<rparr>)"

definition generatePDF :: "canvas \<Rightarrow> json \<Rightarrow> PDFOptions \<Rightarrow> error + artifact" where
  "generatePDF c input options =
     (case readInput c input of
        Inl err \<Rightarrow> Inl err
      | Inr raw \<Rightarrow>
          (let jsonData = cleanJSON raw
           in (case layoutFields c options jsonData of
                 Inl err \<Rightarrow> Inl err
               | Inr w \<Rightarrow>
                   Inr (finish (mkEnv c options jsonData)
                          (orDefault (opt_pageNumbering options) True) w))))"

section \<open>Reading a layout\<close>

text \<open>
  The content calls of the page walk are the left-aligned texts (labels and lines), the
  images and the tables; the furniture texts are centred. What the page breaks of the
  walk keep of each: a text is not started below the reserved band of 100 units above the
  bottom; neither is an image, and it also ends above the band unless it stands at the
  top offset 100 (where a page break has put it); a table is started at the top offset
  100 or where its estimate of 25 units a row and 50 more fits. Below and above are
  JavaScript's comparisons of the cursor, number or string.
\<close>

fun opWithin :: "runtime \<Rightarrow> real \<Rightarrow> op \<Rightarrow> bool" where
  "opWithin rt H (Text t x y NoAlign) = (\<not> jsGreater rt y (H - 100))"
| "opWithin rt H (AddImage imgData x y w h) =
     (\<not> jsGreater rt y (H - 100) \<and> (y = JNum 100 \<or> \<not> jsGreater rt (jsPlus rt y h) (H - 100)))"
| "opWithin rt H (AutoTable y headRow body) =
     (y = JNum 100 \<or> willFitOnPage rt y (real (length body) * 25 + 50) H)"
| "opWithin rt H _ = True"

definition docWithin :: "runtime \<Rightarrow> real \<Rightarrow> jsPDF \<Rightarrow> bool" where
  "docWithin rt H d = (\<forall>p \<in> set (allPages d). \<forall>c \<in> set p. opWithin rt H c)"

text \<open>The images embedded in a document, in drawing order.\<close>

fun opImage :: "op \<Rightarrow> string list" where
  "opImage (AddImage imgData x y w h) = [imgData]"
| "opImage _ = []"

definition docImages :: "jsPDF \<Rightarrow> string list" where
  "docImages d = concat (map (\<lambda>p. concat (map opImage p)) (allPages d))"

text \<open>What the rows of an image table ask for: the images that arrive, the requests that fail.\<close>

definition arrivingImages :: "canvas \<Rightarrow> json list \<Rightarrow> string list" where
  "arrivingImages c rows =
     concat (map (\<lambda>row. if truthy (getProp row ''url'')
                         then (case axiosGetImage c (the (getProp row ''url'')) of
                                 Some base64 \<Rightarrow> [''data:image/jpeg;base64,'' @ base64]
                               | None \<Rightarrow> [])
                         else []) rows)"

definition failingRequests :: "canvas \<Rightarrow> json list \<Rightarrow> diag list" where
  "failingRequests c rows =
     concat (map (\<lambda>row. if truthy (getProp row ''url'')
                         then (case axiosGetImage c (the (getProp row ''url'')) of
                                 Some base64 \<Rightarrow> []
                               | None \<Rightarrow> [FailedToLoadImage (the (getProp row ''url''))])
                         else []) rows)"

text \<open>Two states of the walk with the same document and the same cursor.\<close>

definition sameLayout :: "walk \<Rightarrow> walk \<Rightarrow> bool" where
  "sameLayout w v = (doc w = doc v \<and> curY w = curY v)"

text \<open>The furniture a new page starts with, and the hook adds: the header, then the footer if any.\<close>

definition furniture :: "env \<Rightarrow> op list" where
  "furniture e =
     headerOps (getProp (e_jsonData e) ''header'') (e_pageWidth e) (e_fontType e) (e_fontSize e) @
     (if truthy (getProp (e_jsonData e) ''footer'')
      then footerOps (the (getProp (e_jsonData e) ''footer'')) (e_pageWidth e) (e_pageHeight e)
      else [])"

text \<open>The bands of the furniture on a page.\<close>

definition hasHeader :: "real \<Rightarrow> op list \<Rightarrow> bool" where
  "hasHeader pageWidth p = (Rect 0 0 pageWidth 70 \<in> set p)"

definition hasFooter :: "real \<Rightarrow> real \<Rightarrow> op list \<Rightarrow> bool" where
  "hasFooter pageWidth pageHeight p = (Rect 0 (pageHeight - 60) pageWidth 60 \<in> set p)"

text \<open>A document of the given page width all of whose pages show the header band.\<close>

definition headed :: "real \<Rightarrow> jsPDF \<Rightarrow> bool" where
  "headed W d = (pageW d = W \<and> (\<forall>p \<in> set (allPages d). hasHeader W p))"

section \<open>Concrete collaborators\<close>

text \<open>
  A runtime for the examples, right on the integers and on the strings of decimal digits
  (the examples convert no others): an integer is written in decimal notation, a string
  of digits is read as its number, the empty string as 0, any other string as \<^verbatim>\<open>NaN\<close>.
\<close>

definition digitsValue :: "string \<Rightarrow> nat" where
  "digitsValue s = foldl (\<lambda>a c. 10 * a + (of_char c - 48)) 0 s"

definition isDigit :: "char \<Rightarrow> bool" where
  "isDigit c = (48 \<le> (of_char c :: nat) \<and> (of_char c :: nat) \<le> 57)"

definition plainRuntime :: runtime where
  "plainRuntime =
     \<lparr>numberToString = (\<lambda>r. (if r < 0 then ''-'' else []) @ string_of_nat (nat \<lfloor>\<bar>r\<bar>\<rfloor>)),
      stringToNumber = (\<lambda>s. if list_all isDigit s then Some (real (digitsValue s)) else None)\<rparr>"

text \<open>
  A canvas to run the generator on. The page sizes are jsPDF's, in points; a short text
  stays on one line; a table has rows 20 points high between the library's margins of 40
  and goes on to further pages when it does not fit; one image URL answers; \<^verbatim>\<open>addImage\<close>
  throws when \<open>x\<close> or \<open>y\<close> reads as \<^verbatim>\<open>NaN\<close>, which is jsPDF's check.
\<close>

fun paperSize :: "format \<Rightarrow> real \<times> real" where
  "paperSize A4 = (595.28, 841.89)"
| "paperSize Letter = (612, 792)"
| "paperSize Legal = (612, 1008)"

definition gridLayout :: "jsPDF \<Rightarrow> json \<Rightarrow> string list \<Rightarrow> json option list list \<Rightarrow> nat \<times> real" where
  "gridLayout d startY headRow body =
     (case startY of
        JNum y \<Rightarrow>
          (let total = length body + 1;
               here = nat \<lfloor>(pageH d - 40 - y) / 20\<rfloor>;
               perPage = nat \<lfloor>(pageH d - 80) / 20\<rfloor>
           in if total \<le> here then (0, y + 20 * real total)
              else (let rest = total - here;
                        pages = (rest + perPage - 1) div perPage
                    in (pages, 40 + 20 * real (rest - (pages - 1) * perPage))))
      | _ \<Rightarrow> (0, 40 + 20 * real (length body + 1)))"

definition pdfCanvas :: canvas where
  "pdfCanvas =
     \<lparr>pageSize = (\<lambda>f orient. case orient of
                     Portrait \<Rightarrow> paperSize f
                   | Landscape \<Rightarrow> (snd (paperSize f), fst (paperSize f))),
      splitTextToSize = (\<lambda>font size s width. [s]),
      autoTableLayout = gridLayout,
      axiosGetJson = (\<lambda>u. None),
      axiosGetImage = (\<lambda>u. if u = JStr ''ok'' then Some ''QUJD'' else None),
      addImageThrows = (\<lambda>x y w h. toNumberJS plainRuntime x = None \<or> toNumberJS plainRuntime y = None),
      jsRuntime = plainRuntime\<rparr>"

definition noOptions :: PDFOptions where
  "noOptions =
     \<lparr>opt_format = None, opt_orientation = None, opt_fontType = None, opt_fontSize = None,
      opt_pageNumbering = None, opt_images = None\<rparr>"

definition letterOptions :: PDFOptions where
  "letterOptions = noOptions\<lparr>opt_format := Some Letter\<rparr>"

definition letterEnv :: env where
  "letterEnv = mkEnv pdfCanvas letterOptions (JObj [])"

definition freshWalk :: walk where
  "freshWalk = \<lparr>doc = newDoc (612, 792), curY = JNum 90, fetched = [], console = []\<rparr>"

text \<open>A document with a footer and six short notes: on a letter page the sixth runs over.\<close>

definition sixNotes :: json where
  "sixNotes =
     JObj [(''footer'', JObj [(''text'', JStr ''F'')]),
           (''a'', JStr ''1''), (''b'', JStr ''2''), (''c'', JStr ''3''),
           (''d'', JStr ''4''), (''e'', JStr ''5''), (''f'', JStr ''6'')]"

text \<open>A document with one picture that is taller than the page.\<close>

definition tallPicture :: json where
  "tallPicture = JObj [(''pics'', JArr [JObj [(''url'', JStr ''ok''), (''height'', JNum 1000)]])]"

text \<open>A document with one table of 29 rows.\<close>

definition longTable :: json where
  "longTable = JObj [(''rows'', JArr (replicate 29 (JObj [(''a'', JNum 1)])))]"

text \<open>Rows of an image table: one that arrives, one whose request fails.\<close>

definition okRow :: json where
  "okRow = JObj [(''url'', JStr ''ok''), (''height'', JNum 200), (''x'', JNum 10)]"

definition goneRow :: json where
  "goneRow = JObj [(''url'', JStr ''gone'')]"

text \<open>A document whose image table has a \<^verbatim>\<open>null\<close> row after a row that is placed.\<close>

definition nullRowDoc :: json where
  "nullRowDoc = JObj [(''pics'', JArr [okRow, JNull])]"

text \<open>
  A document whose image table has, after a row whose request fails, a row whose \<open>x\<close>
  jsPDF refuses.
\<close>

definition goneThenLeft :: json where
  "goneThenLeft =
     JObj [(''pics'', JArr [goneRow, JObj [(''url'', JStr ''ok''), (''x'', JStr ''left'')]])]"

section \<open>Basic facts about pages, keys and the operators\<close>

lemma furnishedPage_layout:
  "furnishedPage d jd pw ph ft fs =
     d\<lparr>finished := finished d @ [current d],
       current := headerOps (getProp jd ''header'') pw ft fs @
         (if truthy (getProp jd ''footer'') then footerOps (the (getProp jd ''footer'')) pw ph else [])\<rparr>"
  by (simp add: furnishedPage_def addPage_def addHeader_def addFooter_def emit_def Let_def)


lemma digit_chars:
  "c \<in> set (string_of_nat n) \<Longrightarrow> 48 \<le> (of_char c :: nat) \<and> (of_char c :: nat) < 58"
proof (induction n rule: string_of_nat.induct)
  case (1 n)
  show ?case
  proof (cases "n < 10")
    case True
    with "1.prems" have "c = char_of (48 + n)" by (simp add: string_of_nat.simps [of n])
    with True show ?thesis by simp
  next
    case False
    with "1.prems" have "c \<in> set (string_of_nat (n div 10)) \<or> c = char_of (48 + n mod 10)"
      by (auto simp add: string_of_nat.simps [of n])
    then show ?thesis
    proof
      assume "c \<in> set (string_of_nat (n div 10))"
      with "1.IH" False show ?thesis by simp
    next
      assume "c = char_of (48 + n mod 10)"
      moreover have "n mod 10 < 10" by simp
      ultimately show ?thesis by (simp add: mod_less)
    qed
  qed
qed

lemma string_of_nat_not_url: "string_of_nat n \<noteq> ''url''"
proof
  assume "string_of_nat n = ''url''"
  then have "CHR ''u'' \<in> set (string_of_nat n)" by simp
  from digit_chars [OF this] show False by simp
qed

lemma array_has_no_url: "''url'' \<notin> set (objectKeys (JArr xs))"
proof
  assume "''url'' \<in> set (objectKeys (JArr xs))"
  then have "''url'' \<in> set (map string_of_nat [0..<length xs])"
    by (simp add: objectKeys_def)
  then obtain i where "string_of_nat i = ''url''" by (metis imageE set_map)
  with string_of_nat_not_url show False by blast
qed

lemma classify_text: "(classify v = Inr (TextField s)) = (v = JStr s)"
  by (auto simp add: classify_def Let_def split: json.splits list.splits)

lemma classify_imageTable:
  "(classify v = Inr (ImageTable rows)) =
     (\<exists>kvs rest. v = JArr rows \<and> rows = JObj kvs # rest \<and> ''url'' \<in> fst ` set kvs)"
proof (cases v)
  case (JArr xs)
  show ?thesis
  proof (cases xs)
    case Nil
    with JArr show ?thesis by (simp add: classify_def)
  next
    case (Cons first rest)
    show ?thesis
    proof (cases first)
      case (JArr ys)
      with \<open>v = JArr xs\<close> Cons array_has_no_url [of ys] show ?thesis
        by (auto simp add: classify_def Let_def)
    next
      case (JObj kvs)
      with \<open>v = JArr xs\<close> Cons show ?thesis
        by (auto simp add: classify_def Let_def objectKeys_def)
    qed (use \<open>v = JArr xs\<close> Cons in \<open>auto simp add: classify_def Let_def\<close>)
  qed
qed (simp_all add: classify_def)

lemma classify_table:
  "(classify v = Inr (Table hs rows)) =
     (\<exists>first rest. v = JArr rows \<and> rows = first # rest \<and> hs = objectKeys first \<and>
        ((\<exists>kvs. first = JObj kvs \<and> ''url'' \<notin> fst ` set kvs) \<or> (\<exists>xs. first = JArr xs)))"
proof (cases v)
  case (JArr xs)
  show ?thesis
  proof (cases xs)
    case Nil
    with JArr show ?thesis by (simp add: classify_def)
  next
    case (Cons first rest)
    show ?thesis
    proof (cases first)
      case (JArr ys)
      with \<open>v = JArr xs\<close> Cons array_has_no_url [of ys] show ?thesis
        by (auto simp add: classify_def Let_def)
    next
      case (JObj kvs)
      with \<open>v = JArr xs\<close> Cons show ?thesis
        by (auto simp add: classify_def Let_def objectKeys_def)
    qed (use \<open>v = JArr xs\<close> Cons in \<open>auto simp add: classify_def Let_def\<close>)
  qed
qed (simp_all add: classify_def)

lemma classify_skip:
  "(classify v = Inr Skip) =
     (case v of
        JStr s \<Rightarrow> False
      | JArr [] \<Rightarrow> True
      | JArr (JNull # rest) \<Rightarrow> False
      | JArr (JArr xs # rest) \<Rightarrow> False
      | JArr (JObj kvs # rest) \<Rightarrow> False
      | _ \<Rightarrow> True)"
  by (simp add: classify_def Let_def split: json.splits list.splits)

lemma jsPlus_numbers [simp]: "jsPlus rt (JNum a) (JNum b) = JNum (a + b)"
  by (simp add: jsPlus_def)

lemma jsGreater_number [simp]: "jsGreater rt (JNum a) r = (a > r)"
  by (simp add: jsGreater_def)

lemma jsLess_number [simp]: "jsLess rt (JNum a) r = (a < r)"
  by (simp add: jsLess_def)

lemma spacing_cases:
  "spacing e d y s =
     (if jsGreater (e_runtime e) (plus e y s) (e_pageHeight e - 100)
      then (furnishedPage d (e_jsonData e) (pageW d) (pageH d) (e_fontType e) (e_fontSize e), JNum 100)
      else (d, plus e y s))"
  by (simp add: spacing_def ensureSpacing_def plus_def)

lemma breakPage_layout:
  "breakPage e d = d\<lparr>finished := finished d @ [current d], current := furniture e\<rparr>"
  by (simp add: breakPage_def furnishedPage_layout furniture_def)

lemma didDrawPage_layout: "didDrawPage e d = d\<lparr>current := current d @ furniture e\<rparr>"
  by (simp add: didDrawPage_def addHeader_def addFooter_def emit_def furniture_def)

section \<open>The fits-or-breaks primitive\<close>



section \<open>Classification of a field\<close>

text \<open>
  C5 (as the code has it). A field is a text exactly when its value is a string; an
  image table exactly when it is a non-empty array whose first element is a mapping with
  a key \<^verbatim>\<open>url\<close>; a table exactly when it is a non-empty array whose first element is a
  mapping without that key, or is itself an array (its indices are then the head row).
  A value that is neither a string nor an array starting with a mapping, an array or
  \<^verbatim>\<open>null\<close> is passed over: nothing is drawn and nothing fails.
\<close>

theorem classify_kinds:
  "(classify v = Inr (TextField s)) = (v = JStr s) \<and>
   (classify v = Inr (ImageTable rows)) =
     (\<exists>kvs rest. v = JArr rows \<and> rows = JObj kvs # rest \<and> ''url'' \<in> fst ` set kvs) \<and>
   (classify v = Inr (Table hs rows)) =
     (\<exists>first rest. v = JArr rows \<and> rows = first # rest \<and> hs = objectKeys first \<and>
        ((\<exists>kvs. first = JObj kvs \<and> ''url'' \<notin> fst ` set kvs) \<or> (\<exists>xs. first = JArr xs))) \<and>
   ((\<forall>s. v \<noteq> JStr s) \<and> (\<forall>first rest. v = JArr (first # rest) \<longrightarrow> \<not> typeofObject first)
      \<longrightarrow> classify v = Inr Skip \<and> renderField e key v w = Inr w)"
proof -
  have "classify v = Inr Skip \<and> renderField e key v w = Inr w"
    if "\<forall>s. v \<noteq> JStr s" and "\<forall>first rest. v = JArr (first # rest) \<longrightarrow> \<not> typeofObject first"
  proof -
    from that have "classify v = Inr Skip"
      by (auto simp add: classify_def Let_def split: json.splits list.splits)
    then show ?thesis by (simp add: renderField_def)
  qed
  with classify_text [of v s] classify_imageTable [of v rows] classify_table [of v hs rows]
  show ?thesis by blast
qed

theorem classify_kinds_witness:
  "(\<forall>s. JArr [JNum 5, JObj [(''url'', JStr ''ok'')]] \<noteq> JStr s) \<and>
   classify (JArr [JNum 5, JObj [(''url'', JStr ''ok'')]]) = Inr Skip \<and>
   renderField letterEnv ''pics'' (JArr [JNum 5, JObj [(''url'', JStr ''ok'')]]) freshWalk = Inr freshWalk"
  using classify_kinds [of "JArr [JNum 5, JObj [(''url'', JStr ''ok'')]]" "''''" "[]" "[]" letterEnv "''pics''" freshWalk]
  by simp

text \<open>An array of arrays is laid out as a table, with the indices as its head row.\<close>

theorem array_of_arrays_counterexample:
  "classify (JArr [JArr [JNum 1, JNum 2]]) = Inr (Table [''0'', ''1''] [JArr [JNum 1, JNum 2]]) \<and>
   classify (JArr [JArr [JNum 1, JNum 2]]) \<noteq> Inr Skip"
  by code_simp

section \<open>The images option\<close>

text \<open>
  C9. The \<^verbatim>\<open>images\<close> option is inert: two calls that differ in nothing but its value
  produce the same result, pages and traces alike.
\<close>

theorem images_option_inert:
  "generatePDF c input (options\<lparr>opt_images := a\<rparr>) = generatePDF c input (options\<lparr>opt_images := b\<rparr>)"
proof -
  have e: "\<And>x j. mkEnv c (options\<lparr>opt_images := x\<rparr>) j = mkEnv c options j"
    by (simp add: mkEnv_def)
  have l: "\<And>x j. layoutFields c (options\<lparr>opt_images := x\<rparr>) j = layoutFields c options j"
    by (simp add: layoutFields_def e)
  show ?thesis by (simp add: generatePDF_def e l Let_def split: sum.split)
qed

section \<open>The table pre-flight\<close>

lemma tablePages_extends: "\<exists>more. allPages (tablePages k e d) = allPages d @ more"
proof (induction k arbitrary: d)
  case 0
  show ?case by simp
next
  case (Suc k)
  from Suc.IH [of "didDrawPage e (addPage d)"]
  obtain more where
    "allPages (tablePages k e (didDrawPage e (addPage d))) = allPages (didDrawPage e (addPage d)) @ more"
    by blast
  then have "allPages (tablePages (Suc k) e d) = allPages d @ (furniture e # more)"
    by (simp add: allPages_def didDrawPage_layout addPage_def)
  then show ?case by blast
qed

lemma autoTable_pages:
  "\<exists>more. allPages (fst (autoTable e startY hs body d)) =
      finished d @ [current d @ AutoTable startY hs body # furniture e] @ more"
proof -
  let ?d = "didDrawPage e (emit [AutoTable startY hs body] d)"
  obtain more where
    "allPages (tablePages (fst (autoTableLayout (e_canvas e) d startY hs body)) e ?d) = allPages ?d @ more"
    using tablePages_extends by blast
  then show ?thesis
    by (simp add: autoTable_def Let_def allPages_def didDrawPage_layout emit_def)
qed

text \<open>
  C3. For a table field the estimate is \<open>rowCount * 25 + 50\<close>, and \<^verbatim>\<open>willFitOnPage\<close> is
  asked once, before the table is started. If the estimate fits, the table call (head row
  and body together) is issued on the current page at the cursor. If it does not, the
  current page is left as it is and the table call is the first content of a new page,
  right after its furniture, at \<open>y = 100\<close>: the head row and the first body row are handed
  to the grid layout together at the top of that page. The pages before are untouched.
\<close>

theorem table_preflight:
  assumes ok: "renderTable e headers rows w = Inr w'"
  shows "let est = real (length rows) * 25 + 50;
             n = length (finished (doc w));
             body = map (\<lambda>row. map (getProp row) headers) rows;
             ps = allPages (doc w')
         in take n ps = finished (doc w) \<and>
            (willFitOnPage (e_runtime e) (curY w) est (e_pageHeight e) \<longrightarrow>
               (\<exists>rest. ps ! n = current (doc w) @ AutoTable (curY w) headers body # rest)) \<and>
            (\<not> willFitOnPage (e_runtime e) (curY w) est (e_pageHeight e) \<longrightarrow>
               ps ! n = current (doc w) \<and>
               (\<exists>rest. ps ! Suc n = furniture e @ AutoTable (JNum 100) headers body # rest))"
proof -
  let ?est = "real (length rows) * 25 + 50"
  let ?body = "map (\<lambda>row. map (getProp row) headers) rows"
  let ?n = "length (finished (doc w))"
  from ok have rows_ok: "\<not> (headers \<noteq> [] \<and> JNull \<in> set rows)"
    by (auto simp add: renderTable_def Let_def split: if_splits)
  show ?thesis
  proof (cases "willFitOnPage (e_runtime e) (curY w) ?est (e_pageHeight e)")
    case True
    with ok rows_ok have d': "doc w' = fst (autoTable e (curY w) headers ?body (doc w))"
      by (auto simp add: renderTable_def Let_def)
    obtain more where
      "allPages (doc w') = finished (doc w) @ [current (doc w) @ AutoTable (curY w) headers ?body # furniture e] @ more"
      using autoTable_pages [of e "curY w" headers ?body "doc w"] d' by auto
    with True show ?thesis by (simp add: Let_def nth_append)
  next
    case False
    with ok rows_ok have d': "doc w' = fst (autoTable e (JNum 100) headers ?body (breakPage e (doc w)))"
      by (auto simp add: renderTable_def Let_def)
    obtain more where
      "allPages (doc w') = finished (doc w) @ [current (doc w)] @
          [furniture e @ AutoTable (JNum 100) headers ?body # furniture e] @ more"
      using autoTable_pages [of e "JNum 100" headers ?body "breakPage e (doc w)"] d'
      by (auto simp add: breakPage_layout)
    with False show ?thesis by (simp add: Let_def nth_append)
  qed
qed

theorem table_preflight_witness:
  "renderTable letterEnv [''a''] [JObj [(''a'', JNum 1)], JObj [(''a'', JNum 2)]]
       (freshWalk\<lparr>curY := JNum 650\<rparr>) =
     Inr (projr (renderTable letterEnv [''a''] [JObj [(''a'', JNum 1)], JObj [(''a'', JNum 2)]]
            (freshWalk\<lparr>curY := JNum 650\<rparr>))) \<and>
   \<not> willFitOnPage plainRuntime (JNum 650) (2 * 25 + 50) 792 \<and>
   (\<exists>rest. allPages (doc (projr (renderTable letterEnv [''a'']
                [JObj [(''a'', JNum 1)], JObj [(''a'', JNum 2)]] (freshWalk\<lparr>curY := JNum 650\<rparr>)))) ! 1 =
      furniture letterEnv @ AutoTable (JNum 100) [''a''] [[Some (JNum 1)], [Some (JNum 2)]] # rest)"
proof -
  let ?rows = "[JObj [(''a'', JNum 1)], JObj [(''a'', JNum 2)]]"
  let ?w = "freshWalk\<lparr>curY := JNum 650\<rparr>"
  have h: "renderTable letterEnv [''a''] ?rows ?w = Inr (projr (renderTable letterEnv [''a''] ?rows ?w))"
    by code_simp
  have nf: "\<not> willFitOnPage plainRuntime (JNum 650) (2 * 25 + 50) 792" by code_simp
  have ph: "e_pageHeight letterEnv = 792" by code_simp
  have bd: "map (\<lambda>row. map (getProp row) [''a'']) ?rows = [[Some (JNum 1)], [Some (JNum 2)]]"
    by code_simp
  have rt: "e_runtime letterEnv = plainRuntime"
    by (simp add: e_runtime_def letterEnv_def mkEnv_def pdfCanvas_def Let_def)
  from table_preflight [OF h] nf ph bd h rt show ?thesis
    by (simp add: Let_def freshWalk_def newDoc_def)
qed

section \<open>Page numbers\<close>

lemma numberPages_length: "length (numberPages pw ph n i ps) = length ps"
proof (induction pw ph n i ps rule: numberPages.induct)
  case (1 pw ph n i ps)
  show ?case
  proof (cases "i \<le> n")
    case True
    with "1.IH" show ?thesis by (simp add: numberPages.simps [of pw ph n i ps])
  next
    case False
    then show ?thesis by (simp add: numberPages.simps [of pw ph n i ps])
  qed
qed

lemma numberPages_nth:
  "1 \<le> i \<Longrightarrow> j < length ps \<Longrightarrow>
     numberPages pw ph n i ps ! j =
       (if i \<le> Suc j \<and> Suc j \<le> n then ps ! j @ stamp pw ph (Suc j) n else ps ! j)"
proof (induction pw ph n i ps rule: numberPages.induct)
  case (1 pw ph n i ps)
  show ?case
  proof (cases "i \<le> n")
    case False
    with "1.prems" show ?thesis by (auto simp add: numberPages.simps [of pw ph n i ps])
  next
    case True
    let ?ps' = "ps[i - 1 := ps ! (i - 1) @ stamp pw ph i n]"
    have step: "numberPages pw ph n i ps = numberPages pw ph n (i + 1) ?ps'"
      using True by (simp add: numberPages.simps [of pw ph n i ps])
    have "numberPages pw ph n (i + 1) ?ps' ! j =
            (if i + 1 \<le> Suc j \<and> Suc j \<le> n then ?ps' ! j @ stamp pw ph (Suc j) n else ?ps' ! j)"
      using "1.IH" [OF True] "1.prems" by simp
    moreover have "?ps' ! j = (if j = i - 1 then ps ! j @ stamp pw ph i n else ps ! j)"
      using "1.prems" by (simp add: nth_list_update)
    ultimately show ?thesis
      using step True "1.prems" by (auto simp add: Suc_diff_1)
  qed
qed

text \<open>
  C8. With page numbering on (the default), the generated pages are those of the same
  call with numbering off, in the same number \<open>N\<close>, each page \<open>i\<close> of \<open>1..N\<close> with the
  font size 10 and the text \<^verbatim>\<open>Page i of N\<close> appended at
  \<open>(pageWidth - 80, pageHeight - 30)\<close>.
\<close>

theorem numbering_stamps_every_page:
  "orDefault (opt_pageNumbering options) True \<Longrightarrow> generatePDF c input options = Inr a \<Longrightarrow>
     (\<exists>a0. generatePDF c input (options\<lparr>opt_pageNumbering := Some False\<rparr>) = Inr a0 \<and>
        length (art_pages a) = length (art_pages a0) \<and>
        (\<forall>i < length (art_pages a).
           art_pages a ! i =
             art_pages a0 ! i @
               [SetFontSize 10,
                Text (JStr (''Page '' @ string_of_nat (Suc i) @ '' of '' @
                              string_of_nat (length (art_pages a))))
                  (fst (pageSize c (orDefault (opt_format options) A4)
                          (orDefault (opt_orientation options) Portrait)) - 80)
                  (JNum (snd (pageSize c (orDefault (opt_format options) A4)
                          (orDefault (opt_orientation options) Portrait)) - 30)) NoAlign]))"
proof -
  assume num: "orDefault (opt_pageNumbering options) True"
    and gen: "generatePDF c input options = Inr a"
  let ?off = "options\<lparr>opt_pageNumbering := Some False\<rparr>"
  have e: "\<And>j. mkEnv c ?off j = mkEnv c options j" by (simp add: mkEnv_def)
  have l: "\<And>j. layoutFields c ?off j = layoutFields c options j"
    by (simp add: layoutFields_def e)
  from gen obtain raw where raw: "readInput c input = Inr raw"
    by (auto simp add: generatePDF_def split: sum.splits)
  let ?jd = "cleanJSON raw"
  from gen raw obtain w where w: "layoutFields c options ?jd = Inr w"
    by (auto simp add: generatePDF_def Let_def split: sum.splits)
  let ?e = "mkEnv c options ?jd"
  from gen raw w num have a: "a = finish ?e True w"
    by (simp add: generatePDF_def Let_def)
  have a0: "generatePDF c input ?off = Inr (finish ?e False w)"
    using raw w by (simp add: generatePDF_def Let_def e l orDefault_def)
  let ?ps = "art_pages (finish ?e False w)"
  have pa: "art_pages a = numberPages (e_pageWidth ?e) (e_pageHeight ?e) (length ?ps) 1 ?ps"
    by (simp add: a finish_def Let_def)
  have len: "length (art_pages a) = length ?ps"
    by (simp add: pa numberPages_length)
  have "art_pages a ! i = ?ps ! i @ stamp (e_pageWidth ?e) (e_pageHeight ?e) (Suc i) (length (art_pages a))"
    if "i < length (art_pages a)" for i
    using that len numberPages_nth [of 1 i ?ps "e_pageWidth ?e" "e_pageHeight ?e" "length ?ps"]
    by (simp add: pa)
  then show ?thesis
    using a0 len by (simp add: stamp_def mkEnv_def Let_def)
qed

theorem numbering_stamps_every_page_witness:
  "orDefault (opt_pageNumbering letterOptions) True \<and>
   generatePDF pdfCanvas sixNotes letterOptions =
     Inr (projr (generatePDF pdfCanvas sixNotes letterOptions)) \<and>
   length (art_pages (projr (generatePDF pdfCanvas sixNotes letterOptions))) = 2 \<and>
   last (art_pages (projr (generatePDF pdfCanvas sixNotes letterOptions)) ! 0) =
     Text (JStr ''Page 1 of 2'') 532 (JNum 762) NoAlign \<and>
   last (art_pages (projr (generatePDF pdfCanvas sixNotes letterOptions)) ! 1) =
     Text (JStr ''Page 2 of 2'') 532 (JNum 762) NoAlign"
proof -
  let ?a = "projr (generatePDF pdfCanvas sixNotes letterOptions)"
  have h1: "orDefault (opt_pageNumbering letterOptions) True" by code_simp
  have h2: "generatePDF pdfCanvas sixNotes letterOptions = Inr ?a" by code_simp
  have n: "length (art_pages ?a) = 2" by code_simp
  have sz: "pageSize pdfCanvas (orDefault (opt_format letterOptions) A4)
              (orDefault (opt_orientation letterOptions) Portrait) = (612, 792)" by code_simp
  have s1: "string_of_nat (Suc 0) = ''1''" by code_simp
  have s2: "string_of_nat 2 = ''2''" by code_simp
  have t1: "string_of_nat (Suc 1) = ''2''" by code_simp
  have n0: "0 < length (art_pages ?a)" and n1: "1 < length (art_pages ?a)" using n by simp_all
  from numbering_stamps_every_page [OF h1 h2]
  have "last (art_pages ?a ! 0) = Text (JStr ''Page 1 of 2'') 532 (JNum 762) NoAlign \<and>
        last (art_pages ?a ! 1) = Text (JStr ''Page 2 of 2'') 532 (JNum 762) NoAlign"
  proof (elim exE conjE)
    fix a0 :: artifact
    assume st: "\<forall>i < length (art_pages ?a).
           art_pages ?a ! i =
             art_pages a0 ! i @
               [SetFontSize 10,
                Text (JStr (''Page '' @ string_of_nat (Suc i) @ '' of '' @
                              string_of_nat (length (art_pages ?a))))
                  (fst (pageSize pdfCanvas (orDefault (opt_format letterOptions) A4)
                          (orDefault (opt_orientation letterOptions) Portrait)) - 80)
                  (JNum (snd (pageSize pdfCanvas (orDefault (opt_format letterOptions) A4)
                          (orDefault (opt_orientation letterOptions) Portrait)) - 30)) NoAlign]"
    note e0 = st [rule_format, OF n0, unfolded n sz s1 s2 fst_conv snd_conv]
    note e1 = st [rule_format, OF n1, unfolded n sz t1 s2 fst_conv snd_conv]
    have p0: "last (art_pages ?a ! 0) = Text (JStr ''Page 1 of 2'') 532 (JNum 762) NoAlign"
      by (subst e0) simp
    have p1: "last (art_pages ?a ! 1) = Text (JStr ''Page 2 of 2'') 532 (JNum 762) NoAlign"
      by (subst e1) simp
    from p0 p1 show ?thesis by (rule conjI)
  qed
  with h1 h2 n show ?thesis by (intro conjI) (erule conjunct1 conjunct2 | assumption)+
qed

section \<open>Furniture on every page\<close>

text \<open>
  The header half holds: page one gets the header before the loop, every page break and
  every page of a table draws it again, and nothing removes it.
\<close>

lemma hasHeader_headerOps: "hasHeader W (cs @ headerOps hdr W ft fs @ cs')"
  by (simp add: hasHeader_def headerOps_def)

lemma hasHeader_append: "hasHeader W p \<Longrightarrow> hasHeader W (p @ cs)"
  by (simp add: hasHeader_def)

lemma headed_emit: "headed W d \<Longrightarrow> headed W (emit cs d)"
  by (auto simp add: headed_def allPages_def emit_def hasHeader_append)

lemma headed_furnishedPage: "headed W d \<Longrightarrow> headed W (furnishedPage d jd W ph ft fs)"
  using hasHeader_headerOps [of W "[]" "getProp jd ''header''" ft fs]
  by (auto simp add: headed_def allPages_def furnishedPage_layout)

lemma headed_spacing:
  "headed W d \<Longrightarrow> headed W (fst (spacing e d y s))"
  using headed_furnishedPage [of "pageW d" d]
  by (auto simp add: spacing_cases headed_def)

lemma headed_breakPage: "e_pageWidth e = W \<Longrightarrow> headed W d \<Longrightarrow> headed W (breakPage e d)"
  by (auto simp add: breakPage_def headed_furnishedPage)

lemma headed_hook_addPage:
  "e_pageWidth e = W \<Longrightarrow> headed W d \<Longrightarrow> headed W (didDrawPage e (addPage d))"
  using hasHeader_headerOps [of W "[]" "getProp (e_jsonData e) ''header''" "e_fontType e" "e_fontSize e"]
  by (auto simp add: headed_def allPages_def didDrawPage_layout addPage_def furniture_def)

lemma headed_didDrawPage: "headed W d \<Longrightarrow> headed W (didDrawPage e d)"
  by (auto simp add: headed_def allPages_def didDrawPage_layout hasHeader_append)

lemma headed_tablePages:
  "e_pageWidth e = W \<Longrightarrow> headed W d \<Longrightarrow> headed W (tablePages k e d)"
  by (induction k arbitrary: d) (simp_all add: headed_hook_addPage)

lemma headed_writeLines: "headed W (fst s) \<Longrightarrow> headed W (fst (writeLines e ls s))"
  by (induction ls arbitrary: s) (simp_all add: Let_def headed_emit headed_spacing)

lemma headed_renderText: "headed W (doc w) \<Longrightarrow> headed W (doc (renderText e key val w))"
  by (simp add: renderText_def Let_def headed_writeLines headed_emit headed_spacing)

lemma headed_placeImage:
  assumes "e_pageWidth e = W" and "headed W (doc w)" and "placeImage e row img w = Inr w'"
  shows "headed W (doc w')"
  using assms(3)
  by (auto simp add: placeImage_def Let_def headed_emit headed_spacing
        headed_breakPage [OF assms(1)] assms(2) split: if_splits)

lemma headed_imageRow:
  assumes "e_pageWidth e = W" and "headed W (doc w)" and "imageRow e row w = Inr w'"
  shows "headed W (doc w')"
proof (cases "row \<noteq> JNull \<and> truthy (getProp row ''url'')")
  case False
  with assms(2,3) show ?thesis by (auto simp add: imageRow_def split: if_splits)
next
  case True
  show ?thesis
  proof (cases "axiosGetImage (e_canvas e) (the (getProp row ''url''))")
    case None
    with True assms(2,3) show ?thesis by (auto simp add: imageRow_def imageToBase64_def)
  next
    case (Some b)
    with True assms(3) have
      "placeImage e row (''data:image/jpeg;base64,'' @ b)
         (w\<lparr>fetched := fetched w @ [the (getProp row ''url'')]\<rparr>) = Inr w'"
      by (simp add: imageRow_def imageToBase64_def)
    from headed_placeImage [OF assms(1) _ this] assms(2) show ?thesis by simp
  qed
qed

lemma headed_renderImageRows:
  assumes "e_pageWidth e = W"
  shows "headed W (doc w) \<Longrightarrow> renderImageRows e rows w = Inr w' \<Longrightarrow> headed W (doc w')"
proof (induction rows arbitrary: w)
  case Nil
  then show ?case by simp
next
  case (Cons row rows)
  from Cons.prems(2) obtain w1 where r: "imageRow e row w = Inr w1"
    and rest: "renderImageRows e rows w1 = Inr w'"
    by (auto split: sum.splits)
  from headed_imageRow [OF assms Cons.prems(1) r] have "headed W (doc w1)" .
  from Cons.IH [OF this rest] show ?case .
qed

lemma headed_renderTable:
  assumes "e_pageWidth e = W" and "headed W (doc w)" and "renderTable e headers rows w = Inr w'"
  shows "headed W (doc w')"
proof -
  let ?est = "real (length rows) * 25 + 50"
  let ?body = "map (\<lambda>row. map (getProp row) headers) rows"
  let ?s1 = "if \<not> willFitOnPage (e_runtime e) (curY w) ?est (e_pageHeight e)
             then (breakPage e (doc w), JNum 100) else (doc w, curY w)"
  have a: "headed W (fst ?s1)" using assms(1,2) by (simp add: headed_breakPage)
  then have "headed W (fst (autoTable e (snd ?s1) headers ?body (fst ?s1)))"
    by (simp add: autoTable_def Let_def headed_tablePages [OF assms(1)] headed_didDrawPage
          headed_emit)
  moreover have "doc w' = fst (autoTable e (snd ?s1) headers ?body (fst ?s1))"
    using assms(3) by (auto simp add: renderTable_def Let_def split: if_splits)
  ultimately show ?thesis by simp
qed

lemma headed_renderField:
  assumes "e_pageWidth e = W" and "headed W (doc w)" and "renderField e key val w = Inr w'"
  shows "headed W (doc w')"
proof (cases "key \<in> set [''header'', ''footer'']")
  case True
  with assms(2,3) show ?thesis by (auto simp add: renderField_def)
next
  case False
  with assms(3) obtain f where f: "classify val = Inr f"
    by (auto simp add: renderField_def split: sum.splits)
  show ?thesis
  proof (cases f)
    case (TextField s)
    with False f assms(3) have "w' = renderText e key s w" by (auto simp add: renderField_def)
    with headed_renderText [OF assms(2)] show ?thesis by simp
  next
    case (ImageTable rows)
    with False f assms(3) have "renderImageRows e rows w = Inr w'" by (auto simp add: renderField_def)
    from headed_renderImageRows [OF assms(1,2) this] show ?thesis .
  next
    case (Table hs rows)
    with False f assms(3) have "renderTable e hs rows w = Inr w'" by (auto simp add: renderField_def)
    from headed_renderTable [OF assms(1,2) this] show ?thesis .
  next
    case Skip
    with False f assms(2,3) show ?thesis by (auto simp add: renderField_def)
  qed
qed

lemma headed_renderFields:
  assumes "e_pageWidth e = W"
  shows "headed W (doc w) \<Longrightarrow> renderFields e kvs w = Inr w' \<Longrightarrow> headed W (doc w')"
proof (induction kvs arbitrary: w)
  case Nil
  then show ?case by simp
next
  case (Cons kv kvs)
  from Cons.prems(2) obtain w1 where r: "renderField e (fst kv) (snd kv) w = Inr w1"
    and rest: "renderFields e kvs w1 = Inr w'"
    by (auto split: sum.splits)
  from headed_renderField [OF assms Cons.prems(1) r] have "headed W (doc w1)" .
  from Cons.IH [OF this rest] show ?case .
qed

lemma headed_layoutFields:
  assumes "layoutFields c options jsonData = Inr w"
  shows "headed (e_pageWidth (mkEnv c options jsonData)) (doc w)"
proof -
  let ?e = "mkEnv c options jsonData"
  let ?d2 = "emit [SetFont (e_fontType ?e) None, SetFontSize (e_fontSize ?e)]
               (fst (addHeader (newDoc (e_pageWidth ?e, e_pageHeight ?e))
                  (getProp jsonData ''header'') (e_pageWidth ?e) (e_fontType ?e) (e_fontSize ?e)))"
  let ?w0 = "\<lparr>doc = ?d2, curY = JNum 90, fetched = [], console = []\<rparr>"
  have "headed (e_pageWidth ?e) ?d2"
    using hasHeader_headerOps [of "e_pageWidth ?e" "[]" "getProp jsonData ''header''"
        "e_fontType ?e" "e_fontSize ?e"
        "[SetFont (e_fontType ?e) None, SetFontSize (e_fontSize ?e)]"]
    by (simp add: headed_def allPages_def emit_def addHeader_def newDoc_def)
  then have start: "headed (e_pageWidth ?e) (doc ?w0)" by simp
  from assms have run: "renderFields ?e (entries jsonData) ?w0 = Inr w"
    by (auto simp add: layoutFields_def Let_def addHeader_def split: if_splits)
  from headed_renderFields [OF refl start run] show ?thesis .
qed

lemma numberPages_headed:
  assumes "\<forall>p \<in> set ps. hasHeader W p"
  shows "\<forall>p \<in> set (numberPages pw ph (length ps) 1 ps). hasHeader W p"
proof -
  have "hasHeader W (numberPages pw ph (length ps) 1 ps ! j)" if "j < length ps" for j
    using that assms numberPages_nth [of 1 j ps pw ph "length ps"]
    by (auto simp add: hasHeader_append)
  then show ?thesis
    by (metis in_set_conv_nth numberPages_length)
qed

lemma every_page_has_header:
  assumes "generatePDF c input options = Inr a"
  shows "\<forall>p \<in> set (art_pages a).
           hasHeader (fst (pageSize c (orDefault (opt_format options) A4)
                             (orDefault (opt_orientation options) Portrait))) p"
proof -
  from assms obtain raw where raw: "readInput c input = Inr raw"
    by (auto simp add: generatePDF_def split: sum.splits)
  let ?jd = "cleanJSON raw"
  let ?e = "mkEnv c options ?jd"
  let ?W = "e_pageWidth ?e"
  from assms raw obtain w where w: "layoutFields c options ?jd = Inr w"
    by (auto simp add: generatePDF_def Let_def split: sum.splits)
  from assms raw w have a: "a = finish ?e (orDefault (opt_pageNumbering options) True) w"
    by (simp add: generatePDF_def Let_def)
  let ?d = "addFooter (doc w) (getProp (e_jsonData ?e) ''footer'') (e_pageWidth ?e) (e_pageHeight ?e)"
  have "headed ?W ?d"
    using headed_layoutFields [OF w] by (simp add: addFooter_def headed_emit)
  then have all: "\<forall>p \<in> set (allPages ?d). hasHeader ?W p" by (simp add: headed_def)
  have "\<forall>p \<in> set (art_pages a). hasHeader ?W p"
    using all numberPages_headed [OF all] by (simp add: a finish_def Let_def)
  then show ?thesis by (simp add: mkEnv_def Let_def)
qed

text \<open>
  C4. Every page should carry the header, and the footer whenever the document has one,
  the first page included. The footer call after the loop draws on the current page,
  which is the last one: with a footer and six short notes on a letter page the artifact
  has two pages, both with the header band, and the footer band is on the second page
  only.
\<close>

theorem first_page_without_footer:
  "\<not> isl (generatePDF pdfCanvas sixNotes letterOptions) \<and>
   map (hasHeader 612) (art_pages (projr (generatePDF pdfCanvas sixNotes letterOptions)))
     = [True, True] \<and>
   map (hasFooter 612 792) (art_pages (projr (generatePDF pdfCanvas sixNotes letterOptions)))
     = [False, True]"
  by code_simp

section \<open>Placing an image\<close>

lemma truthy_prop_not_null: "truthy (getProp row k) \<Longrightarrow> row \<noteq> JNull"
  by (auto simp add: getProp_def)




section \<open>Image rows without a URL\<close>

text \<open>
  A row that is not \<^verbatim>\<open>null\<close> and whose \<^verbatim>\<open>url\<close> is absent or falsy changes nothing: no
  request is sent, nothing is drawn, the cursor stays, and the loop goes on with the rows
  that follow as if the row were not there.
\<close>

lemma falsy_url_row_skipped:
  "row \<noteq> JNull \<Longrightarrow> \<not> truthy (getProp row ''url'') \<Longrightarrow>
     imageRow e row w = Inr w \<and> renderImageRows e (row # rows) w = renderImageRows e rows w"
  by (simp add: imageRow_def)

text \<open>
  C10. Every row without a \<^verbatim>\<open>url\<close> should be passed over. A row that is \<^verbatim>\<open>null\<close> has none,
  and it is not passed over: reading \<^verbatim>\<open>row.url\<close> throws, so the loop stops there and the
  call ends with the TypeError instead of an artifact, also when the rows before were
  placed.
\<close>

theorem null_row_not_skipped:
  "imageRow letterEnv JNull freshWalk = Inl TypeError \<and>
   generatePDF pdfCanvas nullRowDoc noOptions = Inl TypeError"
  by code_simp

section \<open>Image requests that fail\<close>

lemma headerOps_images: "c \<in> set (headerOps hdr pw ft fs) \<Longrightarrow> opImage c = []"
  by (auto simp add: headerOps_def)

lemma footerOps_images: "c \<in> set (footerOps f pw ph) \<Longrightarrow> opImage c = []"
  by (auto simp add: footerOps_def)

lemma docImages_emit: "docImages (emit cs d) = docImages d @ concat (map opImage cs)"
  by (simp add: docImages_def allPages_def emit_def)

lemma docImages_furnishedPage: "docImages (furnishedPage d jd pw ph ft fs) = docImages d"
  by (auto simp add: docImages_def allPages_def furnishedPage_layout headerOps_images
        footerOps_images)

lemma docImages_spacing: "docImages (fst (spacing e d y s)) = docImages d"
  by (simp add: spacing_cases docImages_furnishedPage)

lemma placeImage_images:
  "placeImage e row img w = Inr w' \<Longrightarrow>
     docImages (doc w') = docImages (doc w) @ [img] \<and>
     fetched w' = fetched w \<and> console w' = console w"
  by (auto simp add: placeImage_def Let_def docImages_emit docImages_spacing breakPage_def
        docImages_furnishedPage split: if_splits)

lemma placeImage_layout:
  "sameLayout w v \<Longrightarrow>
     rel_sum (=) sameLayout (placeImage e row img w) (placeImage e row img v)"
  by (simp add: sameLayout_def placeImage_def Let_def)

lemma arrivingImages_Cons:
  "arrivingImages c (row # rows) = arrivingImages c [row] @ arrivingImages c rows"
  by (simp add: arrivingImages_def)

lemma failingRequests_Cons:
  "failingRequests c (row # rows) = failingRequests c [row] @ failingRequests c rows"
  by (simp add: failingRequests_def)

lemma imageRow_images:
  assumes "imageRow e row w = Inr w'"
  shows "docImages (doc w') = docImages (doc w) @ arrivingImages (e_canvas e) [row] \<and>
         console w' = console w @ failingRequests (e_canvas e) [row]"
proof (cases "truthy (getProp row ''url'')")
  case False
  with assms show ?thesis
    by (auto simp add: imageRow_def arrivingImages_def failingRequests_def split: if_splits)
next
  case True
  then have nn: "row \<noteq> JNull" by (rule truthy_prop_not_null)
  show ?thesis
  proof (cases "axiosGetImage (e_canvas e) (the (getProp row ''url''))")
    case None
    with True nn assms show ?thesis
      by (auto simp add: imageRow_def imageToBase64_def arrivingImages_def failingRequests_def)
  next
    case (Some b)
    with True nn assms have
      "placeImage e row (''data:image/jpeg;base64,'' @ b)
         (w\<lparr>fetched := fetched w @ [the (getProp row ''url'')]\<rparr>) = Inr w'"
      by (simp add: imageRow_def imageToBase64_def)
    from placeImage_images [OF this] True Some show ?thesis
      by (simp add: arrivingImages_def failingRequests_def)
  qed
qed

lemma imageRow_layout:
  assumes "sameLayout w v"
  shows "rel_sum (=) sameLayout (imageRow e row w) (imageRow e row v)"
proof (cases "row \<noteq> JNull \<and> truthy (getProp row ''url'')")
  case False
  with assms show ?thesis by (auto simp add: imageRow_def)
next
  case True
  show ?thesis
  proof (cases "axiosGetImage (e_canvas e) (the (getProp row ''url''))")
    case None
    with True assms show ?thesis
      by (simp add: imageRow_def imageToBase64_def sameLayout_def)
  next
    case (Some b)
    have "sameLayout (w\<lparr>fetched := fetched w @ [the (getProp row ''url'')]\<rparr>)
                     (v\<lparr>fetched := fetched v @ [the (getProp row ''url'')]\<rparr>)"
      using assms by (simp add: sameLayout_def)
    from placeImage_layout [OF this] True Some show ?thesis
      by (simp add: imageRow_def imageToBase64_def)
  qed
qed

lemma renderImageRows_layout:
  "sameLayout w v \<Longrightarrow>
     rel_sum (=) sameLayout (renderImageRows e rows w) (renderImageRows e rows v)"
proof (induction rows arbitrary: w v)
  case Nil
  then show ?case by simp
next
  case (Cons row rows)
  from imageRow_layout [OF Cons.prems, of e row] Cons.IH show ?case
    by (cases "imageRow e row w"; cases "imageRow e row v") auto
qed

lemma renderImageRows_images:
  "renderImageRows e rows w = Inr w' \<Longrightarrow>
     docImages (doc w') = docImages (doc w) @ arrivingImages (e_canvas e) rows \<and>
     console w' = console w @ failingRequests (e_canvas e) rows"
proof (induction rows arbitrary: w)
  case Nil
  then show ?case by (simp add: arrivingImages_def failingRequests_def)
next
  case (Cons row rows)
  from Cons.prems obtain w1 where r: "imageRow e row w = Inr w1"
    and rest: "renderImageRows e rows w1 = Inr w'"
    by (auto split: sum.splits)
  from imageRow_images [OF r] Cons.IH [OF rest] show ?case
    by (simp add: arrivingImages_Cons [of _ row rows] failingRequests_Cons [of _ row rows])
qed

lemma renderImageRows_append:
  "renderImageRows e (xs @ ys) w =
     (case renderImageRows e xs w of Inl err \<Rightarrow> Inl err | Inr w1 \<Rightarrow> renderImageRows e ys w1)"
  by (induction xs arbitrary: w) (simp_all split: sum.splits)

text \<open>
  C6 (as the code has it). A row whose request fails is passed over with a diagnostic:
  the document and the cursor stay as they are. The loop over the rows then ends as it
  ends without that row: with the same error, or with the same document and the same
  cursor. When it ends with a result, the document holds the images of the other rows
  whose requests succeed and none for the failed row, and the diagnostics are those of
  the failed requests.
\<close>

theorem image_fetch_failure_nonfatal:
  assumes url: "truthy (getProp failed ''url'')"
    and fails: "axiosGetImage (e_canvas e) (the (getProp failed ''url'')) = None"
  shows "imageRow e failed w =
           Inr (w\<lparr>fetched := fetched w @ [the (getProp failed ''url'')],
                  console := console w @ [FailedToLoadImage (the (getProp failed ''url''))]\<rparr>) \<and>
         rel_sum (=) sameLayout
           (renderImageRows e (before @ failed # after) w)
           (renderImageRows e (before @ after) w) \<and>
         (\<forall>w1. renderImageRows e (before @ failed # after) w = Inr w1 \<longrightarrow>
            docImages (doc w1) =
              docImages (doc w) @ arrivingImages (e_canvas e) (before @ after) \<and>
            console w1 = console w @ failingRequests (e_canvas e) (before @ failed # after) \<and>
            FailedToLoadImage (the (getProp failed ''url'')) \<in> set (console w1))"
proof -
  let ?u = "the (getProp failed ''url'')"
  have skip: "imageRow e failed v =
                Inr (v\<lparr>fetched := fetched v @ [?u], console := console v @ [FailedToLoadImage ?u]\<rparr>)"
    for v
    using truthy_prop_not_null [OF url] url fails by (simp add: imageRow_def imageToBase64_def)
  have rel: "rel_sum (=) sameLayout
               (renderImageRows e (before @ failed # after) w)
               (renderImageRows e (before @ after) w)"
  proof (cases "renderImageRows e before w")
    case (Inl err)
    then show ?thesis by (simp add: renderImageRows_append)
  next
    case (Inr wb)
    let ?wf = "wb\<lparr>fetched := fetched wb @ [?u], console := console wb @ [FailedToLoadImage ?u]\<rparr>"
    have "sameLayout ?wf wb" by (simp add: sameLayout_def)
    from renderImageRows_layout [OF this, of e after] Inr skip [of wb] show ?thesis
      by (simp add: renderImageRows_append)
  qed
  have arr: "arrivingImages (e_canvas e) (before @ failed # after) =
               arrivingImages (e_canvas e) (before @ after)"
    using url fails by (simp add: arrivingImages_def)
  have mem: "FailedToLoadImage ?u \<in> set (failingRequests (e_canvas e) (before @ failed # after))"
    using url fails by (simp add: failingRequests_def)
  have res: "docImages (doc w1) = docImages (doc w) @ arrivingImages (e_canvas e) (before @ after) \<and>
             console w1 = console w @ failingRequests (e_canvas e) (before @ failed # after) \<and>
             FailedToLoadImage ?u \<in> set (console w1)"
    if "renderImageRows e (before @ failed # after) w = Inr w1" for w1
    using renderImageRows_images [OF that] arr mem by simp
  from skip [of w] rel res show ?thesis by blast
qed

theorem image_fetch_failure_nonfatal_witness:
  "truthy (getProp goneRow ''url'') \<and>
   axiosGetImage (e_canvas letterEnv) (the (getProp goneRow ''url'')) = None \<and>
   imageRow letterEnv goneRow freshWalk =
     Inr (freshWalk\<lparr>fetched := [JStr ''gone''], console := [FailedToLoadImage (JStr ''gone'')]\<rparr>) \<and>
   rel_sum (=) sameLayout
     (renderImageRows letterEnv [okRow, goneRow, okRow] freshWalk)
     (renderImageRows letterEnv [okRow, okRow] freshWalk) \<and>
   \<not> isl (renderImageRows letterEnv [okRow, goneRow, okRow] freshWalk) \<and>
   docImages (doc (projr (renderImageRows letterEnv [okRow, goneRow, okRow] freshWalk))) =
     [''data:image/jpeg;base64,QUJD'', ''data:image/jpeg;base64,QUJD''] \<and>
   console (projr (renderImageRows letterEnv [okRow, goneRow, okRow] freshWalk)) =
     [FailedToLoadImage (JStr ''gone'')]"
proof -
  let ?run = "renderImageRows letterEnv [okRow, goneRow, okRow] freshWalk"
  have c: "truthy (getProp goneRow ''url'')" by code_simp
  have d: "axiosGetImage (e_canvas letterEnv) (the (getProp goneRow ''url'')) = None" by code_simp
  have u: "the (getProp goneRow ''url'') = JStr ''gone''" by code_simp
  have ok: "?run = Inr (projr ?run)" by code_simp
  have i: "arrivingImages (e_canvas letterEnv) [okRow, okRow] =
             [''data:image/jpeg;base64,QUJD'', ''data:image/jpeg;base64,QUJD'']" by code_simp
  have f: "failingRequests (e_canvas letterEnv) [okRow, goneRow, okRow] =
             [FailedToLoadImage (JStr ''gone'')]" by code_simp
  have s: "docImages (doc freshWalk) = [] \<and> console freshWalk = [] \<and> fetched freshWalk = []"
    by code_simp
  note inst = image_fetch_failure_nonfatal [OF c d, of freshWalk "[okRow]" "[okRow]"]
  from inst have skip: "imageRow letterEnv goneRow freshWalk =
     Inr (freshWalk\<lparr>fetched := [JStr ''gone''], console := [FailedToLoadImage (JStr ''gone'')]\<rparr>)"
    using u s by simp
  from inst have rel: "rel_sum (=) sameLayout ?run
     (renderImageRows letterEnv [okRow, okRow] freshWalk)"
    by (simp del: renderImageRows.simps)
  from inst ok have res:
    "docImages (doc (projr ?run)) =
       docImages (doc freshWalk) @ arrivingImages (e_canvas letterEnv) ([okRow] @ [okRow]) \<and>
     console (projr ?run) =
       console freshWalk @ failingRequests (e_canvas letterEnv) ([okRow] @ goneRow # [okRow])"
    by (simp del: renderImageRows.simps)
  have nl: "\<not> isl ?run" by code_simp
  from c d skip rel nl res i f s show ?thesis by (simp del: renderImageRows.simps)
qed

text \<open>
  After a row whose request fails comes a row whose \<open>x\<close> is the string \<^verbatim>\<open>left\<close>: the failed
  request is survived, jsPDF refuses the next image, and the call ends with that error.
\<close>

theorem refused_row_after_failed_counterexample:
  "generatePDF pdfCanvas goneThenLeft noOptions = Inl CanvasError"
  by code_simp

section \<open>Content and the reserved band\<close>

lemma headerOps_within: "c \<in> set (headerOps hdr pw ft fs) \<Longrightarrow> opWithin rt H c"
  by (auto simp add: headerOps_def)

lemma footerOps_within: "c \<in> set (footerOps f pw ph) \<Longrightarrow> opWithin rt H c"
  by (auto simp add: footerOps_def)

lemma furniture_within: "c \<in> set (furniture e) \<Longrightarrow> opWithin rt H c"
  by (auto simp add: furniture_def headerOps_within footerOps_within split: if_splits)

lemma docWithin_emit:
  "docWithin rt H d \<Longrightarrow> \<forall>c \<in> set cs. opWithin rt H c \<Longrightarrow> docWithin rt H (emit cs d)"
  by (auto simp add: docWithin_def allPages_def emit_def)

lemma docWithin_furnishedPage:
  "docWithin rt H d \<Longrightarrow> docWithin rt H (furnishedPage d jd pw ph ft fs)"
  by (auto simp add: docWithin_def allPages_def furnishedPage_layout
        headerOps_within footerOps_within split: if_splits)

lemma docWithin_breakPage: "docWithin rt H d \<Longrightarrow> docWithin rt H (breakPage e d)"
  by (simp add: breakPage_def docWithin_furnishedPage)

lemma docWithin_didDrawPage: "docWithin rt H d \<Longrightarrow> docWithin rt H (didDrawPage e d)"
  by (auto simp add: docWithin_def allPages_def didDrawPage_layout furniture_within)

lemma docWithin_addPage: "docWithin rt H d \<Longrightarrow> docWithin rt H (addPage d)"
  by (auto simp add: docWithin_def allPages_def addPage_def)

lemma spacing_within:
  assumes "docWithin rt H d" and "200 \<le> H" and "e_pageHeight e = H" and "e_runtime e = rt"
  shows "docWithin rt H (fst (spacing e d y s)) \<and> \<not> jsGreater rt (snd (spacing e d y s)) (H - 100)"
  using assms by (simp add: spacing_cases docWithin_furnishedPage)

lemma writeLines_within:
  assumes "200 \<le> H" and "e_pageHeight e = H" and "e_runtime e = rt"
  shows "docWithin rt H (fst s) \<Longrightarrow> docWithin rt H (fst (writeLines e ls s))"
proof (induction ls arbitrary: s)
  case Nil
  then show ?case by simp
next
  case (Cons line ls)
  let ?s1 = "spacing e (fst s) (snd s) (JNum 20)"
  from spacing_within [OF Cons.prems assms, of "snd s" "JNum 20"]
  have a: "docWithin rt H (fst ?s1)" and b: "\<not> jsGreater rt (snd ?s1) (H - 100)" by simp_all
  have "docWithin rt H (emit [Text (JStr line) 50 (snd ?s1) NoAlign] (fst ?s1))"
    using a b by (simp add: docWithin_emit)
  then show ?case using Cons.IH by (simp add: Let_def)
qed

lemma renderText_within:
  assumes "200 \<le> H" and "e_pageHeight e = H" and "e_runtime e = rt" and "docWithin rt H (doc w)"
  shows "docWithin rt H (doc (renderText e key val w))"
proof -
  let ?s1 = "spacing e (doc w) (curY w) (JNum 30)"
  from spacing_within [OF assms(4) assms(1) assms(2) assms(3), of "curY w" "JNum 30"]
  have a: "docWithin rt H (fst ?s1)" and b: "\<not> jsGreater rt (snd ?s1) (H - 100)" by simp_all
  have "docWithin rt H (emit [SetFontSize (e_fontSize e), SetFont (e_fontType e) (Some ''bold''),
           Text (JStr (toUpperCase key @ '':'')) 50 (snd ?s1) NoAlign,
           SetFont (e_fontType e) (Some ''normal'')] (fst ?s1))"
    using a b by (simp add: docWithin_emit)
  then show ?thesis
    using writeLines_within [OF assms(1) assms(2) assms(3)] by (simp add: renderText_def Let_def)
qed

lemma placeImage_within:
  assumes "200 \<le> H" and "e_pageHeight e = H" and "e_runtime e = rt" and "docWithin rt H (doc w)"
    and "placeImage e row img w = Inr w'"
  shows "docWithin rt H (doc w')"
proof -
  let ?h = "orElse (getProp row ''height'') (JNum 100)"
  let ?s1 = "spacing e (doc w) (curY w) (orElse (getProp row ''height'') (JNum 120))"
  let ?s2 = "if jsGreater rt (jsPlus rt (snd ?s1) ?h) (H - 100)
             then (breakPage e (fst ?s1), JNum 100) else ?s1"
  from spacing_within [OF assms(4) assms(1) assms(2) assms(3), of "curY w"]
  have a: "docWithin rt H (fst ?s1)" and b: "\<not> jsGreater rt (snd ?s1) (H - 100)" by simp_all
  have c: "docWithin rt H (fst ?s2)" using a by (simp add: docWithin_breakPage)
  have d: "\<not> jsGreater rt (snd ?s2) (H - 100) \<and>
           (snd ?s2 = JNum 100 \<or> \<not> jsGreater rt (jsPlus rt (snd ?s2) ?h) (H - 100))"
    using b assms(1) by auto
  have "doc w' = emit [AddImage img (case getProp row ''x'' of None \<Rightarrow> JNum 50 | Some v \<Rightarrow> v)
                         (snd ?s2) (orElse (getProp row ''width'') (JNum 150)) ?h] (fst ?s2)"
    using assms(2,3,5) by (auto simp add: placeImage_def Let_def plus_def split: if_splits)
  then show ?thesis using c d by (simp add: docWithin_emit)
qed

lemma imageRow_within:
  assumes "200 \<le> H" and "e_pageHeight e = H" and "e_runtime e = rt" and "docWithin rt H (doc w)"
    and "imageRow e row w = Inr w'"
  shows "docWithin rt H (doc w')"
proof (cases "row \<noteq> JNull \<and> truthy (getProp row ''url'')")
  case False
  with assms(4,5) show ?thesis by (auto simp add: imageRow_def split: if_splits)
next
  case True
  show ?thesis
  proof (cases "axiosGetImage (e_canvas e) (the (getProp row ''url''))")
    case None
    with True assms(4,5) show ?thesis by (auto simp add: imageRow_def imageToBase64_def)
  next
    case (Some b)
    with True assms(5) have
      "placeImage e row (''data:image/jpeg;base64,'' @ b)
         (w\<lparr>fetched := fetched w @ [the (getProp row ''url'')]\<rparr>) = Inr w'"
      by (simp add: imageRow_def imageToBase64_def)
    from placeImage_within [OF assms(1,2,3) _ this] assms(4) show ?thesis by simp
  qed
qed

lemma renderImageRows_within:
  assumes "200 \<le> H" and "e_pageHeight e = H" and "e_runtime e = rt"
  shows "docWithin rt H (doc w) \<Longrightarrow> renderImageRows e rows w = Inr w' \<Longrightarrow> docWithin rt H (doc w')"
proof (induction rows arbitrary: w)
  case Nil
  then show ?case by simp
next
  case (Cons row rows)
  from Cons.prems(2) obtain w1 where r: "imageRow e row w = Inr w1"
    and rest: "renderImageRows e rows w1 = Inr w'"
    by (auto split: sum.splits)
  from imageRow_within [OF assms Cons.prems(1) r] have "docWithin rt H (doc w1)" .
  from Cons.IH [OF this rest] show ?case .
qed

lemma tablePages_within: "docWithin rt H d \<Longrightarrow> docWithin rt H (tablePages k e d)"
  by (induction k arbitrary: d) (simp_all add: docWithin_addPage docWithin_didDrawPage)

lemma renderTable_within:
  assumes "200 \<le> H" and "e_pageHeight e = H" and "e_runtime e = rt" and "docWithin rt H (doc w)"
    and "renderTable e headers rows w = Inr w'"
  shows "docWithin rt H (doc w')"
proof -
  let ?est = "real (length rows) * 25 + 50"
  let ?body = "map (\<lambda>row. map (getProp row) headers) rows"
  let ?s1 = "if \<not> willFitOnPage rt (curY w) ?est H
             then (breakPage e (doc w), JNum 100) else (doc w, curY w)"
  have a: "docWithin rt H (fst ?s1)" using assms(4) by (simp add: docWithin_breakPage)
  have b: "snd ?s1 = JNum 100 \<or> willFitOnPage rt (snd ?s1) (real (length ?body) * 25 + 50) H"
    by simp
  have "docWithin rt H (emit [AutoTable (snd ?s1) headers ?body] (fst ?s1))"
    using a b by (simp add: docWithin_emit)
  then have "docWithin rt H (fst (autoTable e (snd ?s1) headers ?body (fst ?s1)))"
    by (simp add: autoTable_def Let_def tablePages_within docWithin_didDrawPage)
  moreover have "doc w' = fst (autoTable e (snd ?s1) headers ?body (fst ?s1))"
    using assms(2,3,5) by (auto simp add: renderTable_def Let_def split: if_splits)
  ultimately show ?thesis by simp
qed

lemma renderField_within:
  assumes "200 \<le> H" and "e_pageHeight e = H" and "e_runtime e = rt" and "docWithin rt H (doc w)"
    and "renderField e key val w = Inr w'"
  shows "docWithin rt H (doc w')"
proof (cases "key \<in> set [''header'', ''footer'']")
  case True
  with assms(4,5) show ?thesis by (auto simp add: renderField_def)
next
  case False
  with assms(5) obtain f where f: "classify val = Inr f"
    by (auto simp add: renderField_def split: sum.splits)
  show ?thesis
  proof (cases f)
    case (TextField s)
    with False f assms(5) have "w' = renderText e key s w" by (auto simp add: renderField_def)
    with renderText_within [OF assms(1,2,3,4)] show ?thesis by simp
  next
    case (ImageTable rows)
    with False f assms(5) have "renderImageRows e rows w = Inr w'" by (auto simp add: renderField_def)
    from renderImageRows_within [OF assms(1,2,3,4) this] show ?thesis .
  next
    case (Table hs rows)
    with False f assms(5) have "renderTable e hs rows w = Inr w'" by (auto simp add: renderField_def)
    from renderTable_within [OF assms(1,2,3,4) this] show ?thesis .
  next
    case Skip
    with False f assms(4,5) show ?thesis by (auto simp add: renderField_def)
  qed
qed

lemma renderFields_within:
  assumes "200 \<le> H" and "e_pageHeight e = H" and "e_runtime e = rt"
  shows "docWithin rt H (doc w) \<Longrightarrow> renderFields e kvs w = Inr w' \<Longrightarrow> docWithin rt H (doc w')"
proof (induction kvs arbitrary: w)
  case Nil
  then show ?case by simp
next
  case (Cons kv kvs)
  from Cons.prems(2) obtain w1 where r: "renderField e (fst kv) (snd kv) w = Inr w1"
    and rest: "renderFields e kvs w1 = Inr w'"
    by (auto split: sum.splits)
  from renderField_within [OF assms Cons.prems(1) r] have "docWithin rt H (doc w1)" .
  from Cons.IH [OF this rest] show ?case .
qed

text \<open>
  C1 (as the code has it). On a page at least 200 units high, in every layout the walk
  produces: no label and no text line is started at a \<open>y\<close> greater than
  \<open>pageHeight - 100\<close>; no image is, and an image also ends at or above
  \<open>pageHeight - 100\<close> unless it stands at \<open>y = 100\<close>; a table is started at
  \<open>y = 100\<close> or at a cursor where its estimate fits, that is, where
  \<open>y + (rows * 25 + 50) < pageHeight - 100\<close>.
\<close>

theorem content_starts_above_reserved_band:
  assumes tall: "200 \<le> e_pageHeight (mkEnv c options jsonData)"
    and ok: "layoutFields c options jsonData = Inr w"
  shows "docWithin (jsRuntime c) (e_pageHeight (mkEnv c options jsonData)) (doc w)"
proof -
  let ?e = "mkEnv c options jsonData"
  let ?H = "e_pageHeight ?e"
  let ?rt = "jsRuntime c"
  let ?d2 = "emit [SetFont (e_fontType ?e) None, SetFontSize (e_fontSize ?e)]
               (fst (addHeader (newDoc (e_pageWidth ?e, e_pageHeight ?e))
                  (getProp jsonData ''header'') (e_pageWidth ?e) (e_fontType ?e) (e_fontSize ?e)))"
  let ?w0 = "\<lparr>doc = ?d2, curY = JNum 90, fetched = [], console = []\<rparr>"
  have rt: "e_runtime ?e = ?rt" by (simp add: e_runtime_def mkEnv_def Let_def)
  have "docWithin ?rt ?H ?d2"
    by (auto simp add: docWithin_def allPages_def emit_def addHeader_def newDoc_def
          headerOps_within)
  then have start: "docWithin ?rt ?H (doc ?w0)" by simp
  from ok have run: "renderFields ?e (entries jsonData) ?w0 = Inr w"
    by (auto simp add: layoutFields_def Let_def addHeader_def split: if_splits)
  from renderFields_within [OF tall refl rt start run] show ?thesis .
qed

theorem content_starts_above_reserved_band_witness:
  "200 \<le> e_pageHeight (mkEnv pdfCanvas letterOptions sixNotes) \<and>
   layoutFields pdfCanvas letterOptions sixNotes =
     Inr (projr (layoutFields pdfCanvas letterOptions sixNotes)) \<and>
   docWithin plainRuntime 792 (doc (projr (layoutFields pdfCanvas letterOptions sixNotes)))"
proof -
  have h1: "200 \<le> e_pageHeight (mkEnv pdfCanvas letterOptions sixNotes)" by code_simp
  have h2: "layoutFields pdfCanvas letterOptions sixNotes =
              Inr (projr (layoutFields pdfCanvas letterOptions sixNotes))" by code_simp
  have h3: "e_pageHeight (mkEnv pdfCanvas letterOptions sixNotes) = 792" by code_simp
  have h4: "jsRuntime pdfCanvas = plainRuntime" by (simp add: pdfCanvas_def)
  from content_starts_above_reserved_band [OF h1 h2] h1 h2 h3 h4 show ?thesis by simp
qed

text \<open>
  A picture 1000 units high on a letter page, 792 units high: two page breaks later it
  is drawn from \<open>y = 100\<close> and ends at 1100, below the reserved band and below the page.
  A table of 29 rows: its estimate fits nowhere, it is started at \<open>y = 100\<close> on a new
  page, and the grid layout reports its end at 700 (the cursor after it is 730), below
  the reserved band at 692.
\<close>

theorem content_below_band_counterexample:
  "\<not> isl (layoutFields pdfCanvas letterOptions tallPicture) \<and>
   last (current (doc (projr (layoutFields pdfCanvas letterOptions tallPicture)))) =
     AddImage ''data:image/jpeg;base64,QUJD'' (JNum 50) (JNum 100) (JNum 150) (JNum 1000) \<and>
   length (finished (doc (projr (layoutFields pdfCanvas letterOptions tallPicture)))) = 2 \<and>
   (100::real) + 1000 > 792 - 100 \<and>
   \<not> isl (layoutFields pdfCanvas letterOptions longTable) \<and>
   AutoTable (JNum 100) [''a''] (replicate 29 [Some (JNum 1)])
     \<in> set (current (doc (projr (layoutFields pdfCanvas letterOptions longTable)))) \<and>
   curY (projr (layoutFields pdfCanvas letterOptions longTable)) = JNum (700 + 30) \<and>
   (700::real) > 792 - 100"
  by code_simp

end
